theory Spec2Isabelle
  imports Complex_Main
begin

section \<open>Python values the calculator computes with\<close>

text \<open>
  The program is Python. Its numbers are \<^verbatim>\<open>decimal.Decimal\<close> values computed in the
  process-wide context that \<^verbatim>\<open>calc.py\<close> sets up (\<^verbatim>\<open>getcontext().prec = 28\<close>, every other
  setting left at its default: rounding \<^verbatim>\<open>ROUND_HALF_EVEN\<close>, \<^verbatim>\<open>Emax = 999999\<close>,
  \<^verbatim>\<open>Emin = -999999\<close>, traps for \<^verbatim>\<open>InvalidOperation\<close>, \<^verbatim>\<open>DivisionByZero\<close> and
  \<^verbatim>\<open>Overflow\<close>). A raised exception is the left summand of a result.
  Strings are lists of 8-bit characters, read as the code points below 256 of Python's
  \<^verbatim>\<open>str\<close>. The interpreter is CPython 3.11, whose \<^verbatim>\<open>decimal\<close> is the C module
  over libmpdec.
\<close>

datatype pyerr = ValueError string | KeyError string | InvalidOperation | DivisionByZero | Overflow

subsection \<open>Text\<close>

text \<open>
  \<^verbatim>\<open>str.isspace\<close> below 256: TAB, LF, VT, FF, CR, the separators 0x1C-0x1F, space,
  NEL (0x85) and the no-break space (0xA0).
\<close>

definition is_space :: "char \<Rightarrow> bool" where
  "is_space c = (of_char c \<in> {9, 10, 11, 12, 13, 28, 29, 30, 31, 32, 133, 160 :: nat})"

definition strip :: "string \<Rightarrow> string" where
  "strip s = rev (dropWhile is_space (rev (dropWhile is_space s)))"

definition is_digit :: "char \<Rightarrow> bool" where
  "is_digit c = (48 \<le> (of_char c :: nat) \<and> (of_char c :: nat) \<le> 57)"

definition digit_val :: "char \<Rightarrow> nat" where
  "digit_val c = of_char c - 48"

definition digit_chr :: "nat \<Rightarrow> char" where
  "digit_chr n = char_of (48 + n)"

definition lower_char :: "char \<Rightarrow> char" where
  "lower_char c = (let n = of_char c :: nat in if 65 \<le> n \<and> n \<le> 90 then char_of (n + 32) else c)"

text \<open>\<^verbatim>\<open>str(n)\<close> for a non-negative integer, and \<^verbatim>\<open>int(s)\<close> for a string of digits.\<close>

fun str_nat :: "nat \<Rightarrow> string" where
  "str_nat n = (if n < 10 then [digit_chr n] else str_nat (n div 10) @ [digit_chr (n mod 10)])"

declare str_nat.simps [simp del]

definition int_digits :: "string \<Rightarrow> nat" where
  "int_digits s = foldl (\<lambda>a c. 10 * a + digit_val c) 0 s"

definition ndigits :: "nat \<Rightarrow> nat" where
  "ndigits n = length (str_nat n)"

text \<open>\<^verbatim>\<open>"%+d" % n\<close>: the sign always written.\<close>

definition str_exp :: "int \<Rightarrow> string" where
  "str_exp n = (if n < 0 then ''-'' else ''+'') @ str_nat (nat \<bar>n\<bar>)"

subsection \<open>Decimal values\<close>

text \<open>
  A \<^verbatim>\<open>Decimal\<close> is a sign, a coefficient and an exponent (\<open>Dec s c e\<close> is
  \<open>(-1)\<^sup>s \<cdot> c \<cdot> 10\<^sup>e\<close>; \<open>Dec False 115 (-2)\<close> is \<^verbatim>\<open>Decimal('1.15')\<close>), an infinity, or a
  NaN (sign, signalling flag, diagnostic payload with 0 for none).
\<close>

datatype decimal =
    Dec bool nat int
  | DInf bool
  | DNaN bool bool nat

definition is_finite :: "decimal \<Rightarrow> bool" where
  "is_finite d = (case d of Dec _ _ _ \<Rightarrow> True | _ \<Rightarrow> False)"

text \<open>The number a finite decimal denotes.\<close>

fun dec_val :: "decimal \<Rightarrow> rat" where
  "dec_val (Dec s c e) = (if s then - 1 else 1) * of_nat c * 10 powi e"
| "dec_val _ = 0"

subsection \<open>\<^verbatim>\<open>Decimal(s)\<close>: reading a string\<close>

text \<open>
  \<^verbatim>\<open>Decimal(value)\<close> strips white space, removes underscores and matches
  \<^verbatim>\<open>[-+]? ( (?=\d|\.\d) \d* (\.\d*)? (E[-+]?\d+)? | Inf(inity)? | s?NaN\d* ) \Z\<close>
  ignoring case (below 256 the only digits are \<^verbatim>\<open>0\<close> to \<^verbatim>\<open>9\<close>). The coefficient is
  \<^verbatim>\<open>int(intpart + fracpart)\<close> and the exponent \<^verbatim>\<open>exp - len(fracpart)\<close>. The number read
  must be held exactly in the widest context of the module (\<^verbatim>\<open>decimal.MAX_PREC\<close>,
  \<^verbatim>\<open>decimal.MAX_EMAX\<close>, \<^verbatim>\<open>decimal.MIN_EMIN\<close>, \<^verbatim>\<open>decimal.MIN_ETINY\<close>). A string that
  does not match, or whose number does not fit, raises \<^verbatim>\<open>InvalidOperation\<close>:
  \<^verbatim>\<open>Decimal('1E+999999999999999999')\<close> is read, \<^verbatim>\<open>Decimal('1E+1000000000000000000')\<close>
  and \<^verbatim>\<open>Decimal('10E+999999999999999999')\<close> raise.
\<close>

definition split_sign :: "string \<Rightarrow> bool \<times> string" where
  "split_sign s = (case s of
       [] \<Rightarrow> (False, [])
     | c # r \<Rightarrow> if c = CHR ''-'' then (True, r) else if c = CHR ''+'' then (False, r) else (False, s))"

definition parse_exp :: "string \<Rightarrow> int option" where
  "parse_exp s = (let (neg, ds) = split_sign s in
     if ds \<noteq> [] \<and> list_all is_digit ds
     then Some ((if neg then - 1 else 1) * int (int_digits ds)) else None)"

definition parse_number :: "bool \<Rightarrow> string \<Rightarrow> decimal option" where
  "parse_number sg s =
    (let ip = takeWhile is_digit s; r1 = dropWhile is_digit s;
         (fp, r2) = (case r1 of
                       [] \<Rightarrow> ([], [])
                     | c # r \<Rightarrow> if c = CHR ''.'' then (takeWhile is_digit r, dropWhile is_digit r)
                              else ([], r1));
         ex = (case r2 of
                 [] \<Rightarrow> Some 0
               | c # r \<Rightarrow> if c = CHR ''E'' \<or> c = CHR ''e'' then parse_exp r else None)
     in if ip = [] \<and> fp = [] then None
        else (case ex of
                None \<Rightarrow> None
              | Some e \<Rightarrow> Some (Dec sg (int_digits (ip @ fp)) (e - int (length fp)))))"

definition parse_special :: "bool \<Rightarrow> string \<Rightarrow> decimal option" where
  "parse_special sg s =
    (let l = map lower_char s in
     if l = ''inf'' \<or> l = ''infinity'' then Some (DInf sg)
     else if take 3 l = ''nan'' \<and> list_all is_digit (drop 3 l)
       then Some (DNaN sg False (int_digits (drop 3 l)))
     else if take 4 l = ''snan'' \<and> list_all is_digit (drop 4 l)
       then Some (DNaN sg True (int_digits (drop 4 l)))
     else None)"

text \<open>The decimal a string is the notation of, if it is one.\<close>

definition Decimal_syntax :: "string \<Rightarrow> decimal option" where
  "Decimal_syntax v =
    (let (sg, r) = split_sign (filter (\<lambda>c. c \<noteq> CHR ''_'') (strip v)) in
     case parse_number sg r of
       Some d \<Rightarrow> Some d
     | None \<Rightarrow> parse_special sg r)"

definition MAX_PREC :: nat where "MAX_PREC = 999999999999999999"
definition MAX_EMAX :: int where "MAX_EMAX = 999999999999999999"
definition MIN_EMIN :: int where "MIN_EMIN = - 999999999999999999"
definition MIN_ETINY :: int where "MIN_ETINY = MIN_EMIN - (int MAX_PREC - 1)"

text \<open>
  The values a \<^verbatim>\<open>Decimal\<close> object can have: what the widest context holds without
  rounding or clamping. A coefficient or a NaN payload has at most \<^verbatim>\<open>MAX_PREC\<close> digits,
  an exponent is at least \<^verbatim>\<open>MIN_ETINY\<close>, the exponent of a zero is at most
  \<^verbatim>\<open>MAX_EMAX\<close> and so is the adjusted exponent of any other number.
\<close>

definition is_Decimal :: "decimal \<Rightarrow> bool" where
  "is_Decimal d = (case d of
      Dec s c e \<Rightarrow>
        ndigits c \<le> MAX_PREC \<and> MIN_ETINY \<le> e \<and>
        (if c = 0 then e \<le> MAX_EMAX else e + int (ndigits c) - 1 \<le> MAX_EMAX)
    | DInf s \<Rightarrow> True
    | DNaN s sig p \<Rightarrow> ndigits p \<le> MAX_PREC)"

definition Decimal_of_str :: "string \<Rightarrow> pyerr + decimal" where
  "Decimal_of_str v =
    (case Decimal_syntax v of
       None \<Rightarrow> Inl InvalidOperation
     | Some d \<Rightarrow> if is_Decimal d then Inr d else Inl InvalidOperation)"

text \<open>\<^verbatim>\<open>Decimal(n)\<close> for an integer is exact.\<close>

definition Decimal_of_int :: "int \<Rightarrow> decimal" where
  "Decimal_of_int n = Dec (n < 0) (nat \<bar>n\<bar>) 0"

subsection \<open>\<^verbatim>\<open>str(d)\<close>: writing a decimal\<close>

text \<open>
  \<^verbatim>\<open>Decimal.__str__\<close>: plain notation when the exponent is at most 0 and more than
  \<open>-6\<close> digits lie left of the point, scientific notation with one digit before the
  point otherwise.
\<close>

definition sign_str :: "bool \<Rightarrow> string" where
  "sign_str s = (if s then ''-'' else [])"

definition Decimal_str :: "decimal \<Rightarrow> string" where
  "Decimal_str d = (case d of
      DInf s \<Rightarrow> sign_str s @ ''Infinity''
    | DNaN s sig p \<Rightarrow>
        sign_str s @ (if sig then ''sNaN'' else ''NaN'') @ (if p = 0 then [] else str_nat p)
    | Dec s c e \<Rightarrow>
        (let ds = str_nat c; n = int (length ds); leftdigits = e + n;
             dotplace = (if e \<le> 0 \<and> leftdigits > - 6 then leftdigits else 1);
             (intpart, fracpart) =
               (if dotplace \<le> 0
                  then (''0'', ''.'' @ replicate (nat (- dotplace)) (CHR ''0'') @ ds)
                else if dotplace \<ge> n
                  then (ds @ replicate (nat (dotplace - n)) (CHR ''0''), [])
                else (take (nat dotplace) ds, ''.'' @ drop (nat dotplace) ds));
             ex = (if leftdigits = dotplace then [] else ''E'' @ str_exp (leftdigits - dotplace))
         in sign_str s @ intpart @ fracpart @ ex))"

subsection \<open>Arithmetic in the context\<close>

definition prec :: nat where "prec = 28"
definition Emax :: int where "Emax = 999999"
definition Emin :: int where "Emin = - 999999"
definition Etiny :: int where "Etiny = Emin - int prec + 1"
definition Etop :: int where "Etop = Emax - int prec + 1"

datatype rounding = ROUND_HALF_EVEN | ROUND_HALF_UP

text \<open>
  Dropping the last \<open>k\<close> digits of a coefficient: \<open>q\<close> are the digits kept and \<open>r\<close>
  the digits dropped. \<^verbatim>\<open>ROUND_HALF_UP\<close> adds one when the first dropped digit is 5 or
  more, \<^verbatim>\<open>ROUND_HALF_EVEN\<close> when more than a half is dropped, or exactly a half and the
  last digit kept is odd.
\<close>

definition round_coef :: "rounding \<Rightarrow> nat \<Rightarrow> nat \<Rightarrow> nat" where
  "round_coef m c k =
    (let q = c div 10 ^ k; r = c mod 10 ^ k in
     if (case m of
           ROUND_HALF_UP \<Rightarrow> 10 ^ k \<le> 2 * r
         | ROUND_HALF_EVEN \<Rightarrow> 10 ^ k < 2 * r \<or> (2 * r = 10 ^ k \<and> odd q))
     then q + 1 else q)"

text \<open>\<^verbatim>\<open>Decimal._rescale(exp, rounding)\<close>: the same number at the exponent \<open>x\<close>.\<close>

fun rescale :: "rounding \<Rightarrow> decimal \<Rightarrow> int \<Rightarrow> decimal" where
  "rescale m (Dec s c e) x =
    (if c = 0 then Dec s 0 x
     else if x \<le> e then Dec s (c * 10 ^ nat (e - x)) x
     else Dec s (round_coef m c (nat (x - e))) x)"
| "rescale m d x = d"

text \<open>\<^verbatim>\<open>Decimal._fix_nan\<close>: a payload keeps its last \<open>prec\<close> digits.\<close>

fun fix_nan :: "decimal \<Rightarrow> decimal" where
  "fix_nan (DNaN s sig p) = DNaN s sig (p mod 10 ^ prec)"
| "fix_nan d = d"

text \<open>
  \<^verbatim>\<open>Decimal._fix(context)\<close>: round to the context. A zero has its exponent clamped; a
  number whose adjusted exponent is above \<open>Emax\<close> raises \<^verbatim>\<open>Overflow\<close>; a coefficient
  of more than \<open>prec\<close> digits, or an exponent below \<open>Etiny\<close>, is rounded half-even.
\<close>

fun dec_fix :: "decimal \<Rightarrow> pyerr + decimal" where
  "dec_fix (Dec s c e) =
    (if c = 0 then Inr (Dec s 0 (min (max e Etiny) Emax))
     else
       let exp_min0 = int (ndigits c) + e - int prec in
       if Etop < exp_min0 then Inl Overflow
       else
         let exp_min = max exp_min0 Etiny in
         if e < exp_min then
           (let q = round_coef ROUND_HALF_EVEN c (nat (exp_min - e));
                (q', x') = (if prec < ndigits q then (q div 10, exp_min + 1) else (q, exp_min))
            in if Etop < x' then Inl Overflow else Inr (Dec s q' x'))
         else Inr (Dec s c e))"
| "dec_fix (DInf s) = Inr (DInf s)"
| "dec_fix (DNaN s sig p) = Inr (fix_nan (DNaN s sig p))"

text \<open>
  \<^verbatim>\<open>Decimal._check_nans\<close>: a signalling NaN operand raises \<^verbatim>\<open>InvalidOperation\<close>, a
  quiet one is the result.
\<close>

definition is_snan :: "decimal \<Rightarrow> bool" where
  "is_snan d = (case d of DNaN _ sig _ \<Rightarrow> sig | _ \<Rightarrow> False)"

definition is_nan :: "decimal \<Rightarrow> bool" where
  "is_nan d = (case d of DNaN _ _ _ \<Rightarrow> True | _ \<Rightarrow> False)"

definition check_nans :: "decimal \<Rightarrow> decimal \<Rightarrow> (pyerr + decimal) option" where
  "check_nans a b =
    (if is_nan a \<or> is_nan b then
       (if is_snan a \<or> is_snan b then Some (Inl InvalidOperation)
        else if is_nan a then Some (Inr (fix_nan a))
        else Some (Inr (fix_nan b)))
     else None)"

text \<open>\<^verbatim>\<open>a * b\<close>: the exact product, rounded to the context.\<close>

fun mul_finite :: "decimal \<Rightarrow> decimal \<Rightarrow> pyerr + decimal" where
  "mul_finite (Dec s c e) (Dec t d f) = dec_fix (Dec (s \<noteq> t) (c * d) (e + f))"
| "mul_finite (DInf s) (Dec t d f) = (if d = 0 then Inl InvalidOperation else Inr (DInf (s \<noteq> t)))"
| "mul_finite (Dec s c e) (DInf t) = (if c = 0 then Inl InvalidOperation else Inr (DInf (s \<noteq> t)))"
| "mul_finite (DInf s) (DInf t) = Inr (DInf (s \<noteq> t))"
| "mul_finite a b = Inl InvalidOperation"

definition dec_mul :: "decimal \<Rightarrow> decimal \<Rightarrow> pyerr + decimal" where
  "dec_mul a b = (case check_nans a b of Some r \<Rightarrow> r | None \<Rightarrow> mul_finite a b)"

text \<open>
  \<^verbatim>\<open>a + b\<close>: the exact sum at the smaller exponent, rounded to the context. The sum of a
  zero and a number is the number rescaled (by at most \<open>prec + 1\<close> places); the sum of
  two opposite numbers is a positive zero.
\<close>

definition signed :: "bool \<Rightarrow> nat \<Rightarrow> int" where
  "signed s c = (if s then - int c else int c)"

fun add_finite :: "decimal \<Rightarrow> decimal \<Rightarrow> pyerr + decimal" where
  "add_finite (Dec s c e) (Dec t d f) =
    (let x = min e f in
     if c = 0 \<and> d = 0 then dec_fix (Dec (s \<and> t) 0 x)
     else if c = 0 then dec_fix (rescale ROUND_HALF_EVEN (Dec t d f) (max x (f - int prec - 1)))
     else if d = 0 then dec_fix (rescale ROUND_HALF_EVEN (Dec s c e) (max x (e - int prec - 1)))
     else
       let r = signed s c * 10 ^ nat (e - x) + signed t d * 10 ^ nat (f - x) in
       if r = 0 then dec_fix (Dec False 0 x) else dec_fix (Dec (r < 0) (nat \<bar>r\<bar>) x))"
| "add_finite (DInf s) (DInf t) = (if s \<noteq> t then Inl InvalidOperation else Inr (DInf s))"
| "add_finite (DInf s) (Dec t d f) = Inr (DInf s)"
| "add_finite (Dec s c e) (DInf t) = Inr (DInf t)"
| "add_finite a b = Inl InvalidOperation"

definition dec_add :: "decimal \<Rightarrow> decimal \<Rightarrow> pyerr + decimal" where
  "dec_add a b = (case check_nans a b of Some r \<Rightarrow> r | None \<Rightarrow> add_finite a b)"

text \<open>
  \<^verbatim>\<open>a / b\<close> (\<^verbatim>\<open>Decimal.__truediv__\<close>): the integer quotient of the coefficients, the
  dividend shifted to give \<open>prec + 1\<close> or \<open>prec + 2\<close> digits; a remainder is recorded in
  the last digit (so that the final rounding sees an inexact result), an exact quotient
  loses its trailing zeros down to the ideal exponent.
\<close>

function strip_zeros :: "nat \<Rightarrow> int \<Rightarrow> int \<Rightarrow> nat \<times> int" where
  "strip_zeros coeff x ideal =
    (if x < ideal \<and> coeff mod 10 = 0 then strip_zeros (coeff div 10) (x + 1) ideal
     else (coeff, x))"
  by pat_completeness auto
termination
  by (relation "measure (\<lambda>(coeff, x, ideal). nat (ideal - x))") auto

declare strip_zeros.simps [simp del]

fun div_finite :: "decimal \<Rightarrow> decimal \<Rightarrow> pyerr + decimal" where
  "div_finite (Dec s c e) (Dec t d f) =
    (if d = 0 then (if c = 0 then Inl InvalidOperation else Inl DivisionByZero)
     else if c = 0 then dec_fix (Dec (s \<noteq> t) 0 (e - f))
     else
       let shift = int (ndigits d) - int (ndigits c) + int prec + 1;
           x = e - f - shift;
           n = (if 0 \<le> shift then c * 10 ^ nat shift else c);
           m = (if 0 \<le> shift then d else d * 10 ^ nat (- shift));
           coeff = n div m;
           remainder = n mod m
       in if remainder \<noteq> 0
          then dec_fix (Dec (s \<noteq> t) (if coeff mod 5 = 0 then coeff + 1 else coeff) x)
          else (case strip_zeros coeff x (e - f) of (coeff', x') \<Rightarrow> dec_fix (Dec (s \<noteq> t) coeff' x')))"
| "div_finite (DInf s) (DInf t) = Inl InvalidOperation"
| "div_finite (DInf s) (Dec t d f) = Inr (DInf (s \<noteq> t))"
| "div_finite (Dec s c e) (DInf t) = Inr (Dec (s \<noteq> t) 0 Etiny)"
| "div_finite a b = Inl InvalidOperation"

definition dec_div :: "decimal \<Rightarrow> decimal \<Rightarrow> pyerr + decimal" where
  "dec_div a b = (case check_nans a b of Some r \<Rightarrow> r | None \<Rightarrow> div_finite a b)"

text \<open>
  \<^verbatim>\<open>a.quantize(b, rounding)\<close>: \<open>a\<close> at the exponent of \<open>b\<close>. It raises
  \<^verbatim>\<open>InvalidOperation\<close> when the result would need more than \<open>prec\<close> digits.
\<close>

fun quantize_finite :: "rounding \<Rightarrow> decimal \<Rightarrow> decimal \<Rightarrow> pyerr + decimal" where
  "quantize_finite m (Dec s c e) (Dec t d x) =
    (if \<not> (Etiny \<le> x \<and> x \<le> Emax) then Inl InvalidOperation
     else if c = 0 then dec_fix (Dec s 0 x)
     else
       let adj = int (ndigits c) + e - 1 in
       if Emax < adj then Inl InvalidOperation
       else if int prec < adj - x + 1 then Inl InvalidOperation
       else (case rescale m (Dec s c e) x of
               Dec s' c' x' \<Rightarrow>
                 if Emax < int (ndigits c') + x' - 1 then Inl InvalidOperation
                 else if prec < ndigits c' then Inl InvalidOperation
                 else dec_fix (Dec s' c' x')
             | _ \<Rightarrow> Inl InvalidOperation))"
| "quantize_finite m (DInf s) (DInf t) = Inr (DInf s)"
| "quantize_finite m a b = Inl InvalidOperation"

definition quantize :: "decimal \<Rightarrow> decimal \<Rightarrow> rounding \<Rightarrow> pyerr + decimal" where
  "quantize a b m = (case check_nans a b of Some r \<Rightarrow> r | None \<Rightarrow> quantize_finite m a b)"

text \<open>
  Ordering against the integer 0 (\<^verbatim>\<open>d <= 0\<close>, \<^verbatim>\<open>d < 0\<close>, \<^verbatim>\<open>d > 0\<close>): a NaN operand
  raises \<^verbatim>\<open>InvalidOperation\<close>.
\<close>

fun dec_lt0 :: "decimal \<Rightarrow> pyerr + bool" where
  "dec_lt0 (Dec s c e) = Inr (s \<and> c \<noteq> 0)"
| "dec_lt0 (DInf s) = Inr s"
| "dec_lt0 (DNaN s sig p) = Inl InvalidOperation"

fun dec_gt0 :: "decimal \<Rightarrow> pyerr + bool" where
  "dec_gt0 (Dec s c e) = Inr (\<not> s \<and> c \<noteq> 0)"
| "dec_gt0 (DInf s) = Inr (\<not> s)"
| "dec_gt0 (DNaN s sig p) = Inl InvalidOperation"

fun dec_le0 :: "decimal \<Rightarrow> pyerr + bool" where
  "dec_le0 (Dec s c e) = Inr (s \<or> c = 0)"
| "dec_le0 (DInf s) = Inr s"
| "dec_le0 (DNaN s sig p) = Inl InvalidOperation"

section \<open>The recipe model (\<^verbatim>\<open>model.py\<close>)\<close>

subsection \<open>Ingredient\<close>

text \<open>
  An \<^verbatim>\<open>Ingredient\<close> after construction: \<^verbatim>\<open>__post_init__\<close> has made both numbers
  \<^verbatim>\<open>Decimal\<close>s.
\<close>

record ingredient =
  name :: string
  quantity :: decimal
  unit :: string
  price_per_unit :: decimal

text \<open>
  What a caller may pass for a number: a \<^verbatim>\<open>Decimal\<close>, an \<^verbatim>\<open>int\<close>, a \<^verbatim>\<open>bool\<close> (a
  subclass of \<^verbatim>\<open>int\<close>) or a \<^verbatim>\<open>str\<close>.
\<close>

datatype number = NDecimal decimal | NInt int | NBool bool | NStr string

definition str_int :: "int \<Rightarrow> string" where
  "str_int n = (if n < 0 then ''-'' else []) @ str_nat (nat \<bar>n\<bar>)"

text \<open>
  \<^verbatim>\<open>str(x)\<close>. An integer of more than \<^verbatim>\<open>sys.get_int_max_str_digits()\<close> digits, 4300
  unless the interpreter was started otherwise, is not printed: \<^verbatim>\<open>str\<close> raises
  \<^verbatim>\<open>ValueError\<close>.
\<close>

definition int_max_str_digits :: nat where
  "int_max_str_digits = 4300"

definition str_number :: "number \<Rightarrow> pyerr + string" where
  "str_number v = (case v of
      NDecimal d \<Rightarrow> Inr (Decimal_str d)
    | NInt n \<Rightarrow>
        if int_max_str_digits < ndigits (nat \<bar>n\<bar>)
        then Inl (ValueError (''Exceeds the limit (4300 digits) for integer string conversion; '' @
               ''use sys.set_int_max_str_digits() to increase the limit''))
        else Inr (str_int n)
    | NBool b \<Rightarrow> Inr (if b then ''True'' else ''False'')
    | NStr t \<Rightarrow> Inr t)"

text \<open>
  \<^verbatim>\<open>if isinstance(x, (int, float, str)): x = Decimal(str(x))\<close>
\<close>

definition normalize_number :: "number \<Rightarrow> pyerr + decimal" where
  "normalize_number v = (case v of
      NDecimal d \<Rightarrow> Inr d
    | _ \<Rightarrow> (case str_number v of Inl e \<Rightarrow> Inl e | Inr t \<Rightarrow> Decimal_of_str t))"

text \<open>
  \<^verbatim>\<open>Ingredient(name, quantity, unit, price_per_unit)\<close>: the dataclass constructor
  followed by \<^verbatim>\<open>__post_init__\<close>, its statements in the source's order.
\<close>

definition Ingredient :: "string \<Rightarrow> number \<Rightarrow> string \<Rightarrow> number \<Rightarrow> pyerr + ingredient" where
  "Ingredient nm q u p =
    (case normalize_number q of
       Inl e \<Rightarrow> Inl e
     | Inr q' \<Rightarrow>
    (case normalize_number p of
       Inl e \<Rightarrow> Inl e
     | Inr p' \<Rightarrow>
    if nm = [] \<or> strip nm = [] then Inl (ValueError ''Ingredient name must be non-empty'')
    else
    (case dec_le0 q' of
       Inl e \<Rightarrow> Inl e
     | Inr True \<Rightarrow> Inl (ValueError ''Ingredient quantity must be > 0'')
     | Inr False \<Rightarrow>
    (case dec_lt0 p' of
       Inl e \<Rightarrow> Inl e
     | Inr True \<Rightarrow> Inl (ValueError ''Ingredient price_per_unit must be >= 0'')
     | Inr False \<Rightarrow>
         Inr \<lparr>name = nm, quantity = q', unit = u, price_per_unit = p'\<rparr>))))"

text \<open>
  A persisted ingredient is a dictionary from keys to strings; an absent key is
  \<open>None\<close>. \<^verbatim>\<open>d[k]\<close> raises \<^verbatim>\<open>KeyError(k)\<close> on an absent key, \<^verbatim>\<open>d.get(k, v)\<close>
  gives \<open>v\<close>.
\<close>

type_synonym ingredient_dict = "string \<rightharpoonup> string"

definition subscript :: "(string \<rightharpoonup> 'a) \<Rightarrow> string \<Rightarrow> pyerr + 'a" where
  "subscript d k = (case d k of None \<Rightarrow> Inl (KeyError k) | Some v \<Rightarrow> Inr v)"

definition get_default :: "(string \<rightharpoonup> 'a) \<Rightarrow> string \<Rightarrow> 'a \<Rightarrow> 'a" where
  "get_default d k v = (case d k of None \<Rightarrow> v | Some w \<Rightarrow> w)"

definition ingredient_to_dict :: "ingredient \<Rightarrow> ingredient_dict" where
  "ingredient_to_dict i =
     [''name'' \<mapsto> name i,
      ''quantity'' \<mapsto> Decimal_str (quantity i),
      ''unit'' \<mapsto> unit i,
      ''price_per_unit'' \<mapsto> Decimal_str (price_per_unit i)]"

text \<open>The keyword arguments of \<^verbatim>\<open>Ingredient.from_dict\<close> are evaluated left to right.\<close>

definition ingredient_from_dict :: "ingredient_dict \<Rightarrow> pyerr + ingredient" where
  "ingredient_from_dict d =
    (case subscript d ''name'' of
       Inl e \<Rightarrow> Inl e
     | Inr nm \<Rightarrow>
    (case subscript d ''quantity'' of
       Inl e \<Rightarrow> Inl e
     | Inr qs \<Rightarrow>
    (case Decimal_of_str qs of
       Inl e \<Rightarrow> Inl e
     | Inr q \<Rightarrow>
    (let u = get_default d ''unit'' [] in
    (case subscript d ''price_per_unit'' of
       Inl e \<Rightarrow> Inl e
     | Inr ps \<Rightarrow>
    (case Decimal_of_str ps of
       Inl e \<Rightarrow> Inl e
     | Inr p \<Rightarrow> Ingredient nm (NDecimal q) u (NDecimal p)))))))"

subsection \<open>Recipe\<close>

record recipe =
  recipe_name :: string
  ingredients :: "ingredient list"
  servings :: int


text \<open>
  A persisted recipe: the three keys of the dictionary, each present or absent, with
  the types \<^verbatim>\<open>to_dict\<close> writes.
\<close>

record recipe_dict =
  name_key :: "string option"
  servings_key :: "int option"
  ingredients_key :: "ingredient_dict list option"

definition recipe_to_dict :: "recipe \<Rightarrow> recipe_dict" where
  "recipe_to_dict r =
     \<lparr>name_key = Some (recipe_name r),
      servings_key = Some (servings r),
      ingredients_key = Some (map ingredient_to_dict (ingredients r))\<rparr>"

text \<open>The list comprehension of \<^verbatim>\<open>Recipe.from_dict\<close> stops at the first exception.\<close>

fun from_dict_all :: "ingredient_dict list \<Rightarrow> pyerr + ingredient list" where
  "from_dict_all [] = Inr []"
| "from_dict_all (d # ds) =
    (case ingredient_from_dict d of
       Inl e \<Rightarrow> Inl e
     | Inr i \<Rightarrow> (case from_dict_all ds of Inl e \<Rightarrow> Inl e | Inr is \<Rightarrow> Inr (i # is)))"

definition recipe_from_dict :: "recipe_dict \<Rightarrow> pyerr + recipe" where
  "recipe_from_dict d =
    (case from_dict_all (case ingredients_key d of None \<Rightarrow> [] | Some l \<Rightarrow> l) of
       Inl e \<Rightarrow> Inl e
     | Inr ings \<Rightarrow>
         Inr \<lparr>recipe_name = (case name_key d of None \<Rightarrow> [] | Some n \<Rightarrow> n),
              ingredients = ings,
              servings = (case servings_key d of None \<Rightarrow> 1 | Some n \<Rightarrow> n)\<rparr>)"

section \<open>The cost engine (\<^verbatim>\<open>calc.py\<close>)\<close>

definition MONEY_QUANT :: decimal where
  "MONEY_QUANT = Dec False 1 (- 2)"

definition quantize_money :: "decimal \<Rightarrow> pyerr + decimal" where
  "quantize_money d = quantize d MONEY_QUANT ROUND_HALF_UP"

text \<open>The loop \<^verbatim>\<open>for ing in recipe.ingredients: total += q * p\<close>, from the running total \<open>acc\<close>.\<close>

fun total_loop :: "decimal \<Rightarrow> ingredient list \<Rightarrow> pyerr + decimal" where
  "total_loop acc [] = Inr acc"
| "total_loop acc (ing # rest) =
    (case dec_mul (quantity ing) (price_per_unit ing) of
       Inl e \<Rightarrow> Inl e
     | Inr qp \<Rightarrow> (case dec_add acc qp of Inl e \<Rightarrow> Inl e | Inr acc' \<Rightarrow> total_loop acc' rest))"

definition calculate_total_cost :: "recipe \<Rightarrow> pyerr + decimal" where
  "calculate_total_cost r =
    (case total_loop (Dec False 0 0) (ingredients r) of
       Inl e \<Rightarrow> Inl e
     | Inr tot \<Rightarrow> quantize_money tot)"

definition calculate_cost_per_serving :: "recipe \<Rightarrow> pyerr + decimal" where
  "calculate_cost_per_serving r =
    (if servings r \<le> 0 then Inl (ValueError ''Servings must be >= 1'')
     else
       (case calculate_total_cost r of
          Inl e \<Rightarrow> Inl e
        | Inr tot \<Rightarrow>
            (case dec_div tot (Decimal_of_int (servings r)) of
               Inl e \<Rightarrow> Inl e
             | Inr per \<Rightarrow> quantize_money per)))"

section \<open>The ingredient table (\<^verbatim>\<open>cost_dialog.py\<close>)\<close>

text \<open>
  A table row is five line edits; what the functions below read and write is their text.
\<close>

record row =
  name_text :: string
  row_price_text :: string
  qty_text :: string
  unit_text :: string
  ppu_text :: string


text \<open>
  \<^verbatim>\<open>format(d, 'f')\<close>: plain notation without an exponent (a zero with a positive
  exponent is written \<open>0\<close>).
\<close>

definition format_f :: "decimal \<Rightarrow> string" where
  "format_f d = (case d of
      Dec s c e \<Rightarrow>
        (let e' = (if c = 0 \<and> 0 < e then 0 else e);
             ds = str_nat c; n = int (length ds); dotplace = e' + n;
             (intpart, fracpart) =
               (if dotplace < 0 then (''0'', replicate (nat (- dotplace)) (CHR ''0'') @ ds)
                else if n < dotplace then (ds @ replicate (nat (dotplace - n)) (CHR ''0''), [])
                else ((if dotplace = 0 then ''0'' else take (nat dotplace) ds), drop (nat dotplace) ds))
         in sign_str s @ intpart @ (if fracpart = [] then [] else ''.'' @ fracpart))
    | _ \<Rightarrow> Decimal_str d)"

text \<open>
  \<^verbatim>\<open>_format_ppu\<close>: two decimals, half-up; on an exception the plain \<^verbatim>\<open>str(value)\<close>.
\<close>

definition format_ppu :: "decimal \<Rightarrow> string" where
  "format_ppu v = (case quantize v (Dec False 1 (- 2)) ROUND_HALF_UP of
      Inr out \<Rightarrow> format_f out
    | Inl e \<Rightarrow> Decimal_str v)"

text \<open>\<^verbatim>\<open>try: x = Decimal(t) except Exception: x = dflt\<close>\<close>

definition Decimal_or :: "string \<Rightarrow> 'a \<Rightarrow> (decimal \<Rightarrow> 'a) \<Rightarrow> 'a" where
  "Decimal_or t dflt f = (case Decimal_of_str t of Inl e \<Rightarrow> dflt | Inr d \<Rightarrow> f d)"

text \<open>
  \<^verbatim>\<open>_update_price_per_unit_for_row\<close> first reads the row: the stripped text of the
  price field, the price it parses to (\<open>None\<close> for a blank or unreadable text), and the
  quantity and the unit spec, each 0 when its text is empty or unreadable.
\<close>

definition row_price_txt :: "row \<Rightarrow> string" where
  "row_price_txt r = (if row_price_text r \<noteq> [] then strip (row_price_text r) else [])"

definition row_price :: "row \<Rightarrow> decimal option" where
  "row_price r = (if row_price_txt r \<noteq> [] then Decimal_or (row_price_txt r) None Some else None)"

definition row_qty :: "row \<Rightarrow> decimal" where
  "row_qty r = Decimal_or (if qty_text r \<noteq> [] then strip (qty_text r) else ''0'') (Dec False 0 0) id"

definition row_unit_spec :: "row \<Rightarrow> decimal" where
  "row_unit_spec r = Decimal_or (if unit_text r \<noteq> [] then strip (unit_text r) else ''0'') (Dec False 0 0) id"

text \<open>
  Then it sets the price-per-unit text, clears it, or leaves it. The whole body runs
  under \<^verbatim>\<open>try: ... except Exception: return\<close>, so an exception of the decimal arithmetic
  leaves the row as it is. (\<^verbatim>\<open>_set_debug\<close> is called after the price-per-unit text has
  been set, and reads a label only.)
\<close>

definition update_price_per_unit_for_row :: "row \<Rightarrow> row" where
  "update_price_per_unit_for_row r =
    (let otherwise = (if row_price_txt r \<noteq> [] then r\<lparr>ppu_text := []\<rparr> else r)
     in case row_price r of
          None \<Rightarrow> otherwise
        | Some price \<Rightarrow>
       (case dec_gt0 (row_qty r) of
          Inl e \<Rightarrow> r
        | Inr False \<Rightarrow> otherwise
        | Inr True \<Rightarrow>
       (case dec_gt0 (row_unit_spec r) of
          Inl e \<Rightarrow> r
        | Inr False \<Rightarrow> otherwise
        | Inr True \<Rightarrow>
       (case dec_div (row_unit_spec r) (row_qty r) of
          Inl e \<Rightarrow> r
        | Inr per \<Rightarrow>
       (case dec_mul price per of
          Inl e \<Rightarrow> r
        | Inr raw \<Rightarrow>
       (case quantize raw (Dec False 1 (- 6)) ROUND_HALF_EVEN of
          Inl e \<Rightarrow> r
        | Inr ppu \<Rightarrow> r\<lparr>ppu_text := format_ppu ppu\<rparr>))))))"





section \<open>Ingredients as objects\<close>








section \<open>What the specification speaks of\<close>

text \<open>
  Rounding a number to \<open>k\<close> decimal places, a tie going away from zero (round-half-up).
\<close>

definition round_half_up :: "nat \<Rightarrow> rat \<Rightarrow> rat" where
  "round_half_up k x = sgn x * of_int \<lfloor>\<bar>x\<bar> * 10 ^ k + 1 / 2\<rfloor> / 10 ^ k"



text \<open>
  The construction invariant of an ingredient, as \<^verbatim>\<open>__post_init__\<close> checks it: the name
  is not blank, \<^verbatim>\<open>quantity <= 0\<close> and \<^verbatim>\<open>price_per_unit < 0\<close> are both false.
\<close>

definition valid_ingredient :: "ingredient \<Rightarrow> bool" where
  "valid_ingredient i =
     (strip (name i) \<noteq> [] \<and> dec_le0 (quantity i) = Inr False \<and> dec_lt0 (price_per_unit i) = Inr False)"

text \<open>
  A finite decimal the context holds unchanged: at most \<open>prec\<close> digits, the exponent
  between \<open>Etiny\<close> and what \<open>Emax\<close> allows.
\<close>

fun representable :: "decimal \<Rightarrow> bool" where
  "representable (Dec s c e) = (ndigits c \<le> prec \<and> Etiny \<le> e \<and> int (ndigits c) + e - 1 \<le> Emax)"
| "representable d = False"




subsection \<open>Auxiliary notions\<close>

text \<open>A string without white space and underscores.\<close>

definition plain :: "string \<Rightarrow> bool" where
  "plain s = (\<forall>c \<in> set s. \<not> is_space c \<and> c \<noteq> CHR ''_'')"

text \<open>The exponent part of a written decimal: absent, or \<open>E\<close> and a signed integer.\<close>

definition exp_part :: "int option \<Rightarrow> string" where
  "exp_part k = (case k of None \<Rightarrow> [] | Some n \<Rightarrow> ''E'' @ str_exp n)"

subsection \<open>Examples\<close>

text \<open>The recipe of \<^verbatim>\<open>test_calc.py\<close> (scenario 1 of the specification).\<close>

definition gin :: ingredient where
  "gin = \<lparr>name = ''Gin'', quantity = Dec False 50 0, unit = ''ml'', price_per_unit = Dec False 2 (- 2)\<rparr>"

definition tonic :: ingredient where
  "tonic = \<lparr>name = ''Tonic'', quantity = Dec False 150 0, unit = ''ml'', price_per_unit = Dec False 1 (- 3)\<rparr>"

definition gin_and_tonic :: recipe where
  "gin_and_tonic = \<lparr>recipe_name = ''G&T'', ingredients = [gin, tonic], servings = 2\<rparr>"


text \<open>
  \<open>d \<le> 0\<close> and \<open>d < 0\<close> for a decimal that is not a NaN (an infinity by its sign).
\<close>

definition le_zero :: "decimal \<Rightarrow> bool" where
  "le_zero d = (case d of Dec s c e \<Rightarrow> dec_val d \<le> 0 | DInf s \<Rightarrow> s | DNaN s sig p \<Rightarrow> False)"


text \<open>A decimal that is not below zero and not a NaN: a zero of either sign counts.\<close>

definition nonneg :: "decimal \<Rightarrow> bool" where
  "nonneg d = (case d of Dec s c e \<Rightarrow> c = 0 \<or> \<not> s | DInf s \<Rightarrow> \<not> s | DNaN s sig p \<Rightarrow> False)"

text \<open>
  Rows of the table: the two scenarios of the specification (21 for 700 at 60, 18 for 700
  at 25), and a row inside the ranges the line edits validate (at most \<open>10\<^sup>9\<close>, six
  decimals) whose price per unit does not fit the context at six decimals; its
  price-per-unit text is what an earlier computation left there.
\<close>

definition gin_row :: row where
  "gin_row = \<lparr>name_text = ''Gin'', row_price_text = ''21'', qty_text = ''700'', unit_text = ''60'',
     ppu_text = []\<rparr>"

definition rum_row :: row where
  "rum_row = \<lparr>name_text = ''Rum'', row_price_text = ''18'', qty_text = ''700'', unit_text = ''25'',
     ppu_text = []\<rparr>"

definition saffron_row :: row where
  "saffron_row = \<lparr>name_text = ''Saffron'', row_price_text = ''1000000000'', qty_text = ''0.00001'',
     unit_text = ''1000000000'', ppu_text = ''7.00''\<rparr>"

section \<open>Properties\<close>

subsection \<open>Digits\<close>

lemma digit_chr_is_digit: "n < 10 \<Longrightarrow> is_digit (digit_chr n)"
  by (simp add: is_digit_def digit_chr_def)

lemma digit_val_chr: "n < 10 \<Longrightarrow> digit_val (digit_chr n) = n"
  by (simp add: digit_val_def digit_chr_def)

lemma str_nat_digits: "list_all is_digit (str_nat n)"
proof (induction n rule: str_nat.induct)
  case (1 n)
  show ?case
  proof (cases "n < 10")
    case True
    then show ?thesis by (subst str_nat.simps) (simp add: digit_chr_is_digit)
  next
    case False
    with 1 show ?thesis by (subst str_nat.simps) (simp add: digit_chr_is_digit)
  qed
qed

lemma str_nat_nonempty: "str_nat n \<noteq> []"
  by (subst str_nat.simps) simp

lemma int_digits_snoc: "int_digits (xs @ [c]) = 10 * int_digits xs + digit_val c"
  by (simp add: int_digits_def)

lemma int_digits_append: "int_digits (xs @ ys) = int_digits xs * 10 ^ length ys + int_digits ys"
  by (induction ys rule: rev_induct) (simp_all add: int_digits_def algebra_simps)

lemma int_digits_str_nat: "int_digits (str_nat n) = n"
proof (induction n rule: str_nat.induct)
  case (1 n)
  show ?case
  proof (cases "n < 10")
    case True
    then show ?thesis by (subst str_nat.simps) (simp add: int_digits_def digit_val_chr)
  next
    case False
    with 1 show ?thesis by (subst str_nat.simps) (simp add: int_digits_snoc digit_val_chr)
  qed
qed

lemma int_digits_zeros: "int_digits (replicate k (CHR ''0'')) = 0"
proof (induction k)
  case 0
  show ?case by (simp add: int_digits_def)
next
  case (Suc k)
  have "replicate (Suc k) (CHR ''0'') = replicate k (CHR ''0'') @ [CHR ''0'']"
    by (simp add: replicate_append_same)
  then show ?case using Suc by (simp add: int_digits_snoc digit_val_def del: replicate_Suc)
qed

subsection \<open>Digits of a coefficient\<close>

lemma ndigits_pos: "0 < ndigits n"
  by (simp add: ndigits_def str_nat_nonempty)

lemma ndigits_small: "n < 10 \<Longrightarrow> ndigits n = 1"
  by (simp add: ndigits_def str_nat.simps)

lemma ndigits_step: "10 \<le> n \<Longrightarrow> ndigits n = Suc (ndigits (n div 10))"
  by (simp add: ndigits_def str_nat.simps [of n])

lemma ndigits_upper: "n < 10 ^ ndigits n"
proof (induction n rule: str_nat.induct)
  case (1 n)
  show ?case
  proof (cases "n < 10")
    case True
    then show ?thesis by (simp add: ndigits_small)
  next
    case False
    then have "n div 10 < 10 ^ ndigits (n div 10)" using 1 by simp
    then have "n < 10 * 10 ^ ndigits (n div 10)" by linarith
    with False show ?thesis by (simp add: ndigits_step)
  qed
qed

lemma ndigits_lower: "n \<noteq> 0 \<Longrightarrow> 10 ^ (ndigits n - 1) \<le> n"
proof (induction n rule: str_nat.induct)
  case (1 n)
  show ?case
  proof (cases "n < 10")
    case True
    with 1(2) show ?thesis by (simp add: ndigits_small)
  next
    case False
    then have "n div 10 \<noteq> 0" by simp
    with False 1 have "10 ^ (ndigits (n div 10) - 1) \<le> n div 10" by simp
    then have "10 * 10 ^ (ndigits (n div 10) - 1) \<le> n" by linarith
    moreover have "0 < ndigits (n div 10)" by (rule ndigits_pos)
    ultimately show ?thesis using False
      by (simp add: ndigits_step power_Suc [symmetric] del: power_Suc)
  qed
qed

lemma ndigits_le: "0 < k \<Longrightarrow> n < 10 ^ k \<Longrightarrow> ndigits n \<le> k"
proof (rule ccontr)
  assume k: "0 < k" and n: "n < 10 ^ k" and "\<not> ndigits n \<le> k"
  then have gt: "k \<le> ndigits n - 1" by simp
  have "n \<noteq> 0"
  proof
    assume "n = 0"
    then have "ndigits n = 1" by (simp add: ndigits_small)
    with gt k show False by simp
  qed
  then have "10 ^ (ndigits n - 1) \<le> n" by (rule ndigits_lower)
  moreover have "(10::nat) ^ k \<le> 10 ^ (ndigits n - 1)" using gt by (simp add: power_increasing)
  ultimately show False using n by linarith
qed

lemma ndigits_le_iff: "0 < k \<Longrightarrow> ndigits n \<le> k \<longleftrightarrow> n < 10 ^ k"
proof
  assume "0 < k" "ndigits n \<le> k"
  then have "(10::nat) ^ ndigits n \<le> 10 ^ k" by (simp add: power_increasing)
  with ndigits_upper [of n] show "n < 10 ^ k" by linarith
qed (rule ndigits_le)

lemma ndigits_mult_pow: "c \<noteq> 0 \<Longrightarrow> ndigits (c * 10 ^ k) = ndigits c + k"
proof (induction k)
  case 0
  then show ?case by simp
next
  case (Suc k)
  have "1 \<le> c * 10 ^ k" using Suc.prems by simp
  then have "10 * 1 \<le> 10 * (c * 10 ^ k)" by (rule mult_le_mono2)
  then have "10 \<le> c * 10 ^ Suc k" by (simp add: mult.assoc mult.left_commute)
  then have "ndigits (c * 10 ^ Suc k) = Suc (ndigits ((c * 10 ^ Suc k) div 10))"
    by (rule ndigits_step)
  also have "(c * 10 ^ Suc k) div 10 = c * 10 ^ k" by simp
  finally show ?case using Suc by simp
qed

lemma ndigits_rec: "ndigits n = (if n < 10 then 1 else Suc (ndigits (n div 10)))"
  by (simp add: ndigits_small ndigits_step)

subsection \<open>Writing a decimal and reading it back\<close>

lemma plain_append [simp]: "plain (xs @ ys) = (plain xs \<and> plain ys)"
  by (auto simp: plain_def)

lemma plain_Cons [simp]: "plain (c # s) = (\<not> is_space c \<and> c \<noteq> CHR ''_'' \<and> plain s)"
  by (auto simp: plain_def)

lemma plain_Nil [simp]: "plain []"
  by (simp add: plain_def)

lemma is_digit_facts:
  assumes "is_digit c"
  shows "\<not> is_space c" "c \<noteq> CHR ''_''" "c \<noteq> CHR ''.''" "c \<noteq> CHR ''E''" "c \<noteq> CHR ''e''"
    "c \<noteq> CHR ''+''" "c \<noteq> CHR ''-''" "lower_char c = c"
  using assms by (auto simp: is_digit_def is_space_def lower_char_def)

lemma plain_digits: "list_all is_digit ds \<Longrightarrow> plain ds"
  by (auto simp: plain_def list_all_iff is_digit_facts)

lemma dropWhile_none: "\<forall>c \<in> set s. \<not> P c \<Longrightarrow> dropWhile P s = s"
  by (cases s) auto

lemma strip_plain: "plain s \<Longrightarrow> strip s = s"
  by (simp add: strip_def plain_def dropWhile_none)

lemma filter_plain: "plain s \<Longrightarrow> filter (\<lambda>c. c \<noteq> CHR ''_'') s = s"
  by (simp add: plain_def filter_id_conv)

lemma split_sign_sign_str:
  "r \<noteq> [] \<Longrightarrow> hd r \<noteq> CHR ''-'' \<Longrightarrow> hd r \<noteq> CHR ''+'' \<Longrightarrow> split_sign (sign_str s @ r) = (s, r)"
  by (cases r) (auto simp: split_sign_def sign_str_def)

lemma plain_sign_str [simp]: "plain (sign_str s)"
  by (simp add: sign_str_def is_space_def)

lemma Decimal_syntax_signed:
  assumes "plain r" "r \<noteq> []" "hd r \<noteq> CHR ''-''" "hd r \<noteq> CHR ''+''"
  shows "Decimal_syntax (sign_str s @ r) =
    (case parse_number s r of
       Some d \<Rightarrow> Some d
     | None \<Rightarrow> parse_special s r)"
  using assms by (simp add: Decimal_syntax_def strip_plain filter_plain split_sign_sign_str)

lemma takeWhile_digits [simp]: "list_all is_digit ds \<Longrightarrow> takeWhile is_digit ds = ds"
  by (simp add: list_all_iff)

lemma dropWhile_digits [simp]: "list_all is_digit ds \<Longrightarrow> dropWhile is_digit ds = []"
  by (simp add: list_all_iff)

lemma takeWhile_digits_app [simp]:
  "list_all is_digit ds \<Longrightarrow> \<not> is_digit c \<Longrightarrow> takeWhile is_digit (ds @ c # t) = ds"
  by (simp add: list_all_iff takeWhile_append2)

lemma dropWhile_digits_app [simp]:
  "list_all is_digit ds \<Longrightarrow> \<not> is_digit c \<Longrightarrow> dropWhile is_digit (ds @ c # t) = c # t"
  by (simp add: list_all_iff dropWhile_append2)

lemma not_digit_dot [simp]: "\<not> is_digit (CHR ''.'')" "\<not> is_digit (CHR ''E'')"
  by (simp_all add: is_digit_def)

lemma parse_exp_str_exp: "parse_exp (str_exp k) = Some k"
  by (auto simp: parse_exp_def str_exp_def split_sign_def str_nat_nonempty str_nat_digits int_digits_str_nat)

lemma parse_number_int:
  assumes "list_all is_digit ip" "ip \<noteq> []"
  shows "parse_number sg (ip @ exp_part k) = Some (Dec sg (int_digits ip) (case k of None \<Rightarrow> 0 | Some n \<Rightarrow> n))"
  using assms by (cases k) (simp_all add: parse_number_def exp_part_def parse_exp_str_exp)

lemma parse_number_frac:
  assumes "list_all is_digit ip" "list_all is_digit fp" "ip \<noteq> []"
  shows "parse_number sg (ip @ ''.'' @ fp @ exp_part k) =
     Some (Dec sg (int_digits (ip @ fp)) ((case k of None \<Rightarrow> 0 | Some n \<Rightarrow> n) - int (length fp)))"
  using assms by (cases k) (simp_all add: parse_number_def exp_part_def parse_exp_str_exp)

lemma plain_exp_part [simp]: "plain (exp_part k)"
  by (cases k) (auto simp: exp_part_def str_exp_def is_space_def intro: plain_digits str_nat_digits)

lemma hd_digit_not_sign: "list_all is_digit ds \<Longrightarrow> ds \<noteq> [] \<Longrightarrow> hd ds \<noteq> CHR ''-'' \<and> hd ds \<noteq> CHR ''+''"
  by (cases ds) (auto simp: is_digit_facts)

lemma Decimal_syntax_int_form:
  assumes "list_all is_digit ip" "ip \<noteq> []"
  shows "Decimal_syntax (sign_str s @ ip @ exp_part k) =
     Some (Dec s (int_digits ip) (case k of None \<Rightarrow> 0 | Some n \<Rightarrow> n))"
proof -
  have "plain (ip @ exp_part k)" using assms by (simp add: plain_digits)
  moreover have "ip @ exp_part k \<noteq> []" using assms by simp
  moreover have "hd (ip @ exp_part k) \<noteq> CHR ''-''" "hd (ip @ exp_part k) \<noteq> CHR ''+''"
    using assms hd_digit_not_sign [of ip] by simp_all
  ultimately show ?thesis
    using Decimal_syntax_signed [of "ip @ exp_part k" s] parse_number_int [OF assms, of s k] by simp
qed

lemma Decimal_syntax_frac_form:
  assumes "list_all is_digit ip" "list_all is_digit fp" "ip \<noteq> []"
  shows "Decimal_syntax (sign_str s @ ip @ ''.'' @ fp @ exp_part k) =
     Some (Dec s (int_digits (ip @ fp)) ((case k of None \<Rightarrow> 0 | Some n \<Rightarrow> n) - int (length fp)))"
proof -
  let ?r = "ip @ ''.'' @ fp @ exp_part k"
  have "plain ?r" using assms by (simp add: plain_digits is_space_def)
  moreover have "?r \<noteq> []" using assms by simp
  moreover have "hd ?r \<noteq> CHR ''-''" "hd ?r \<noteq> CHR ''+''"
    using assms hd_digit_not_sign [of ip] by simp_all
  ultimately show ?thesis
    using Decimal_syntax_signed [of ?r s] parse_number_frac [OF assms, of s k] by simp
qed

lemma Decimal_syntax_str_Dec: "Decimal_syntax (Decimal_str (Dec s c e)) = Some (Dec s c e)"
proof -
  define ds where "ds = str_nat c"
  define n where "n = int (length ds)"
  have dig: "list_all is_digit ds" and ne: "ds \<noteq> []" and val: "int_digits ds = c"
    by (simp_all add: ds_def str_nat_digits str_nat_nonempty int_digits_str_nat)
  have n1: "1 \<le> n" using ne by (cases ds) (simp_all add: n_def)
  have len: "length ds = nat n" by (simp add: n_def)
  consider (small) "e \<le> 0" "- 6 < e + n" "e + n \<le> 0"
    | (whole) "e = 0"
    | (mid) "e < 0" "0 < e + n"
    | (sci1) "\<not> (e \<le> 0 \<and> - 6 < e + n)" "n = 1"
    | (sci) "\<not> (e \<le> 0 \<and> - 6 < e + n)" "1 < n"
    using n1 by linarith
  then show ?thesis
  proof cases
    case small
    let ?z = "replicate (nat (- (e + n))) (CHR ''0'')"
    have str: "Decimal_str (Dec s c e) = sign_str s @ ''0'' @ ''.'' @ (?z @ ds) @ exp_part None"
      using small n1 by (simp add: Decimal_str_def Let_def ds_def [symmetric] n_def [symmetric] exp_part_def)
    have z: "list_all is_digit (?z @ ds)" using dig by (auto simp: list_all_iff is_digit_def)
    have "int_digits ''0'' = 0" by (simp add: int_digits_def digit_val_def)
    then have "int_digits (''0'' @ ?z @ ds) = c"
      by (simp only: int_digits_append [of "''0''"] int_digits_append [of ?z] int_digits_zeros val)
    moreover have "- int (length (?z @ ds)) = e" using small n1 by (simp add: len)
    ultimately show ?thesis
      unfolding str using Decimal_syntax_frac_form [of "''0''" "?z @ ds" s None] z
      by (simp add: is_digit_def)
  next
    case whole
    have str: "Decimal_str (Dec s c e) = sign_str s @ ds @ exp_part None"
      using whole n1 by (simp add: Decimal_str_def Let_def ds_def [symmetric] n_def [symmetric] exp_part_def)
    show ?thesis unfolding str using Decimal_syntax_int_form [OF dig ne, of s None] whole val by simp
  next
    case mid
    let ?k = "nat (e + n)"
    have k: "0 < ?k" "?k < length ds" using mid by (simp_all add: len)
    have str: "Decimal_str (Dec s c e) = sign_str s @ take ?k ds @ ''.'' @ drop ?k ds @ exp_part None"
      using mid n1 by (simp add: Decimal_str_def Let_def ds_def [symmetric] n_def [symmetric] exp_part_def)
    have d1: "list_all is_digit (take ?k ds)" "list_all is_digit (drop ?k ds)"
      using dig by (auto simp: list_all_iff dest: in_set_takeD in_set_dropD)
    have ne1: "take ?k ds \<noteq> []" using k ne by simp
    have "- int (length (drop ?k ds)) = e" using mid n1 by (simp add: len)
    then show ?thesis
      unfolding str using Decimal_syntax_frac_form [OF d1 ne1, of s None] val by simp
  next
    case sci1
    then have e0: "e \<noteq> 0" by auto
    have str: "Decimal_str (Dec s c e) = sign_str s @ ds @ exp_part (Some e)"
      using sci1 e0 n1 by (auto simp add: Decimal_str_def Let_def ds_def [symmetric] n_def [symmetric] exp_part_def)
    show ?thesis unfolding str using Decimal_syntax_int_form [OF dig ne, of s "Some e"] val by simp
  next
    case sci
    then have ne1: "e + n \<noteq> 1" by auto
    have str: "Decimal_str (Dec s c e) =
        sign_str s @ take 1 ds @ ''.'' @ drop 1 ds @ exp_part (Some (e + n - 1))"
      using sci ne1 n1 by (auto simp add: Decimal_str_def Let_def ds_def [symmetric] n_def [symmetric] exp_part_def)
    have d1: "list_all is_digit (take 1 ds)" "list_all is_digit (drop 1 ds)"
      using dig by (auto simp: list_all_iff dest: in_set_takeD in_set_dropD)
    have ne2: "take 1 ds \<noteq> []" using ne by simp
    have "e + n - 1 - int (length (drop 1 ds)) = e" using sci n1 by (simp add: len)
    then show ?thesis
      unfolding str using Decimal_syntax_frac_form [OF d1 ne2, of s "Some (e + n - 1)"] val by simp
  qed
qed

lemma parse_number_letters:
  "r \<noteq> [] \<Longrightarrow> \<not> is_digit (hd r) \<Longrightarrow> hd r \<noteq> CHR ''.'' \<Longrightarrow> parse_number s r = None"
  by (cases r) (simp_all add: parse_number_def)

lemma lower_letters [simp]:
  "lower_char (CHR ''I'') = CHR ''i''" "lower_char (CHR ''N'') = CHR ''n''"
  "lower_char (CHR ''n'') = CHR ''n''" "lower_char (CHR ''f'') = CHR ''f''"
  "lower_char (CHR ''i'') = CHR ''i''" "lower_char (CHR ''t'') = CHR ''t''"
  "lower_char (CHR ''y'') = CHR ''y''" "lower_char (CHR ''a'') = CHR ''a''"
  "lower_char (CHR ''s'') = CHR ''s''"
  by code_simp+

lemma lower_digits: "list_all is_digit ds \<Longrightarrow> map lower_char ds = ds"
  by (induction ds) (simp_all add: is_digit_facts)

lemma Decimal_syntax_str_DInf: "Decimal_syntax (Decimal_str (DInf s)) = Some (DInf s)"
proof -
  have "Decimal_syntax (sign_str s @ ''Infinity'') = Some (DInf s)"
    by (subst Decimal_syntax_signed)
      (simp_all add: is_space_def parse_number_letters is_digit_def parse_special_def)
  then show ?thesis by (simp add: Decimal_str_def)
qed

lemma Decimal_syntax_str_DNaN: "Decimal_syntax (Decimal_str (DNaN s sig p)) = Some (DNaN s sig p)"
proof -
  define ds where "ds = (if p = 0 then [] else str_nat p)"
  have dig: "list_all is_digit ds" and val: "int_digits ds = p"
    by (simp_all add: ds_def str_nat_digits int_digits_str_nat) (simp add: int_digits_def)
  have pl: "plain ds" using dig by (rule plain_digits)
  have low: "map lower_char ds = ds" using dig by (rule lower_digits)
  have q: "Decimal_syntax (sign_str s @ ''NaN'' @ ds) = Some (DNaN s False p)"
    by (subst Decimal_syntax_signed)
      (simp_all add: is_space_def parse_number_letters is_digit_def parse_special_def pl low dig val)
  have sn: "Decimal_syntax (sign_str s @ ''sNaN'' @ ds) = Some (DNaN s True p)"
    by (subst Decimal_syntax_signed)
      (simp_all add: is_space_def parse_number_letters is_digit_def parse_special_def pl low dig val)
  show ?thesis using q sn by (cases "p = 0") (simp_all add: Decimal_str_def ds_def)
qed

lemma Decimal_syntax_str: "Decimal_syntax (Decimal_str d) = Some d"
  by (cases d) (simp_all only: Decimal_syntax_str_Dec Decimal_syntax_str_DInf Decimal_syntax_str_DNaN)

lemma Decimal_str_roundtrip: "is_Decimal d \<Longrightarrow> Decimal_of_str (Decimal_str d) = Inr d"
  by (simp add: Decimal_of_str_def Decimal_syntax_str)

lemma Decimal_of_str_is_Decimal: "Decimal_of_str t = Inr d \<Longrightarrow> is_Decimal d"
  by (auto simp: Decimal_of_str_def split: option.splits if_splits)

lemmas max_eval = is_Decimal_def MAX_PREC_def MAX_EMAX_def MIN_EMIN_def MIN_ETINY_def ndigits_rec

lemmas text_eval = strip_def is_space_def is_digit_def digit_val_def int_digits_def
  split_sign_def parse_exp_def parse_number_def parse_special_def Decimal_syntax_def Decimal_of_str_def
  max_eval

lemmas dict_eval = subscript_def get_default_def ingredient_from_dict_def

subsection \<open>Persisted records\<close>

lemma Ingredient_valid:
  "valid_ingredient i \<Longrightarrow>
   Ingredient (name i) (NDecimal (quantity i)) (unit i) (NDecimal (price_per_unit i)) = Inr i"
  by (auto simp: valid_ingredient_def Ingredient_def normalize_number_def strip_def)

lemma ingredient_from_dict_to_dict:
  "valid_ingredient i \<Longrightarrow> is_Decimal (quantity i) \<Longrightarrow> is_Decimal (price_per_unit i) \<Longrightarrow>
   ingredient_from_dict (ingredient_to_dict i) = Inr i"
  by (simp add: dict_eval ingredient_to_dict_def Decimal_str_roundtrip Ingredient_valid)

lemma from_dict_all_to_dict:
  "\<forall>i \<in> set is. valid_ingredient i \<and> is_Decimal (quantity i) \<and> is_Decimal (price_per_unit i) \<Longrightarrow>
   from_dict_all (map ingredient_to_dict is) = Inr is"
  by (induction "is") (simp_all add: ingredient_from_dict_to_dict)

text \<open>
  C5. For every recipe whose ingredients satisfy the construction invariant, reading
  back the dictionary written by \<^verbatim>\<open>to_dict\<close> gives the recipe itself: the same name,
  servings and ingredients, field by field. The two decimal fields are written as
  strings that \<^verbatim>\<open>Decimal\<close> reads back to the very decimal that was written (sign,
  coefficient and exponent), so nothing is lost. The quantity and the price of an
  ingredient are \<^verbatim>\<open>Decimal\<close> objects, values of the widest context: it is these that
  \<^verbatim>\<open>Decimal\<close> reads.
\<close>

theorem recipe_roundtrip:
  "\<forall>i \<in> set (ingredients r).
     valid_ingredient i \<and> is_Decimal (quantity i) \<and> is_Decimal (price_per_unit i) \<Longrightarrow>
   recipe_from_dict (recipe_to_dict r) = Inr r \<and>
   (\<forall>i \<in> set (ingredients r).
      map_option Decimal_of_str (ingredient_to_dict i ''quantity'') = Some (Inr (quantity i)) \<and>
      map_option Decimal_of_str (ingredient_to_dict i ''price_per_unit'')
        = Some (Inr (price_per_unit i)))"
  by (simp add: recipe_from_dict_def recipe_to_dict_def from_dict_all_to_dict
      ingredient_to_dict_def Decimal_str_roundtrip)

theorem recipe_roundtrip_witness:
  "valid_ingredient gin \<and> valid_ingredient tonic \<and>
   is_Decimal (quantity gin) \<and> is_Decimal (price_per_unit gin) \<and>
   is_Decimal (quantity tonic) \<and> is_Decimal (price_per_unit tonic) \<and>
   recipe_from_dict (recipe_to_dict gin_and_tonic) = Inr gin_and_tonic"
proof -
  have g: "valid_ingredient gin" and t: "valid_ingredient tonic"
    by (simp_all add: gin_def tonic_def valid_ingredient_def strip_def is_space_def)
  have m: "is_Decimal (quantity gin)" "is_Decimal (price_per_unit gin)"
    "is_Decimal (quantity tonic)" "is_Decimal (price_per_unit tonic)"
    by (simp_all add: gin_def tonic_def max_eval)
  from g t m have v: "\<forall>i \<in> set (ingredients gin_and_tonic).
      valid_ingredient i \<and> is_Decimal (quantity i) \<and> is_Decimal (price_per_unit i)"
    by (simp add: gin_and_tonic_def)
  from recipe_roundtrip [OF v] g t m show ?thesis by simp
qed

lemma from_dict_all_Inr:
  "from_dict_all ds = Inr is \<Longrightarrow> d \<in> set ds \<Longrightarrow> \<not> isl (ingredient_from_dict d)"
  by (induction ds arbitrary: "is") (auto split: sum.splits)

lemma ingredient_from_dict_malformed:
  assumes "d ''name'' = None \<or> d ''quantity'' = None \<or> d ''price_per_unit'' = None \<or>
    (\<exists>t. d ''quantity'' = Some t \<and> isl (Decimal_of_str t)) \<or>
    (\<exists>t. d ''price_per_unit'' = Some t \<and> isl (Decimal_of_str t))"
  shows "isl (ingredient_from_dict d)"
  using assms by (auto simp: dict_eval split: option.splits sum.splits)

text \<open>
  C6 as stated fails: a record in which every recipe-level key is missing loads, the
  name defaulted to the empty string, the servings to 1 and the ingredients to none.
\<close>

theorem load_defaults_counterexample:
  "recipe_from_dict \<lparr>name_key = None, servings_key = None, ingredients_key = None\<rparr>
     = Inr \<lparr>recipe_name = [], ingredients = [], servings = 1\<rparr>"
  by (simp add: recipe_from_dict_def)

lemma ingredient_from_dict_unit:
  "ingredient_from_dict (if d ''unit'' = None then d(''unit'' \<mapsto> []) else d) = ingredient_from_dict d"
  by (auto simp: dict_eval Let_def split: option.splits sum.splits)

lemma from_dict_all_unit:
  "from_dict_all (map (\<lambda>d. if d ''unit'' = None then d(''unit'' \<mapsto> []) else d) ds) = from_dict_all ds"
  by (induction ds) (simp_all only: list.map from_dict_all.simps ingredient_from_dict_unit)

text \<open>
  C6, amended. Loading fails as a whole, with no recipe built from the other
  ingredients, as soon as one ingredient record lacks the key \<^verbatim>\<open>name\<close>,
  \<^verbatim>\<open>quantity\<close> or \<^verbatim>\<open>price_per_unit\<close>, or carries a quantity or a price that
  \<^verbatim>\<open>Decimal\<close> rejects. The other keys are defaulted when missing: every record loads
  as the record in which a missing \<^verbatim>\<open>name\<close> is the empty string, a missing
  \<^verbatim>\<open>servings\<close> is 1, a missing \<^verbatim>\<open>ingredients\<close> is the empty list and a missing
  \<^verbatim>\<open>unit\<close> of an ingredient is the empty string.
\<close>

theorem load_malformed_fails:
  "(ingredients_key rd = Some ds \<longrightarrow>
     (\<exists>d \<in> set ds.
        d ''name'' = None \<or> d ''quantity'' = None \<or> d ''price_per_unit'' = None \<or>
        (\<exists>t. d ''quantity'' = Some t \<and> isl (Decimal_of_str t)) \<or>
        (\<exists>t. d ''price_per_unit'' = Some t \<and> isl (Decimal_of_str t))) \<longrightarrow>
     isl (recipe_from_dict rd)) \<and>
   recipe_from_dict rd =
     recipe_from_dict
       \<lparr>name_key = Some (case name_key rd of None \<Rightarrow> [] | Some n \<Rightarrow> n),
        servings_key = Some (case servings_key rd of None \<Rightarrow> 1 | Some n \<Rightarrow> n),
        ingredients_key = Some (case ingredients_key rd of
            None \<Rightarrow> []
          | Some l \<Rightarrow> map (\<lambda>d. if d ''unit'' = None then d(''unit'' \<mapsto> []) else d) l)\<rparr>"
proof (intro conjI impI)
  assume k: "ingredients_key rd = Some ds"
    and "\<exists>d \<in> set ds.
        d ''name'' = None \<or> d ''quantity'' = None \<or> d ''price_per_unit'' = None \<or>
        (\<exists>t. d ''quantity'' = Some t \<and> isl (Decimal_of_str t)) \<or>
        (\<exists>t. d ''price_per_unit'' = Some t \<and> isl (Decimal_of_str t))"
  then obtain d where d: "d \<in> set ds" "isl (ingredient_from_dict d)"
    using ingredient_from_dict_malformed by blast
  have "isl (from_dict_all ds)"
  proof (cases "from_dict_all ds")
    case (Inr "is")
    with d from_dict_all_Inr show ?thesis by blast
  qed simp
  with k show "isl (recipe_from_dict rd)"
    by (auto simp: recipe_from_dict_def split: sum.splits)
next
  show "recipe_from_dict rd =
     recipe_from_dict
       \<lparr>name_key = Some (case name_key rd of None \<Rightarrow> [] | Some n \<Rightarrow> n),
        servings_key = Some (case servings_key rd of None \<Rightarrow> 1 | Some n \<Rightarrow> n),
        ingredients_key = Some (case ingredients_key rd of
            None \<Rightarrow> []
          | Some l \<Rightarrow> map (\<lambda>d. if d ''unit'' = None then d(''unit'' \<mapsto> []) else d) l)\<rparr>"
    by (cases "ingredients_key rd") (simp_all add: recipe_from_dict_def from_dict_all_unit split: sum.splits)
qed

theorem load_malformed_fails_witness:
  "isl (recipe_from_dict
     \<lparr>name_key = Some ''G&T'', servings_key = Some 2,
      ingredients_key = Some [ingredient_to_dict gin, [''name'' \<mapsto> ''Tonic'', ''quantity'' \<mapsto> ''lots'',
         ''unit'' \<mapsto> ''ml'', ''price_per_unit'' \<mapsto> ''0.001'']]\<rparr>) \<and>
   recipe_from_dict \<lparr>name_key = None, servings_key = None,
      ingredients_key = Some [[''name'' \<mapsto> ''Gin'', ''quantity'' \<mapsto> ''50'', ''price_per_unit'' \<mapsto> ''0.02'']]\<rparr>
     = Inr \<lparr>recipe_name = [], ingredients =
         [\<lparr>name = ''Gin'', quantity = Dec False 50 0, unit = [], price_per_unit = Dec False 2 (- 2)\<rparr>],
         servings = 1\<rparr>"
proof -
  have "isl (Decimal_of_str ''lots'')"
    by (simp add: text_eval lower_char_def)
  then have a: "isl (recipe_from_dict
     \<lparr>name_key = Some ''G&T'', servings_key = Some 2,
      ingredients_key = Some [ingredient_to_dict gin, [''name'' \<mapsto> ''Tonic'', ''quantity'' \<mapsto> ''lots'',
         ''unit'' \<mapsto> ''ml'', ''price_per_unit'' \<mapsto> ''0.001'']]\<rparr>)"
    using load_malformed_fails [of "\<lparr>name_key = Some ''G&T'', servings_key = Some 2,
      ingredients_key = Some [ingredient_to_dict gin, [''name'' \<mapsto> ''Tonic'', ''quantity'' \<mapsto> ''lots'',
         ''unit'' \<mapsto> ''ml'', ''price_per_unit'' \<mapsto> ''0.001'']]\<rparr>"
        "[ingredient_to_dict gin, [''name'' \<mapsto> ''Tonic'', ''quantity'' \<mapsto> ''lots'',
         ''unit'' \<mapsto> ''ml'', ''price_per_unit'' \<mapsto> ''0.001'']]", THEN conjunct1]
    by simp
  have b0: "recipe_from_dict \<lparr>name_key = None, servings_key = None,
      ingredients_key = Some [[''name'' \<mapsto> ''Gin'', ''quantity'' \<mapsto> ''50'', ''price_per_unit'' \<mapsto> ''0.02'']]\<rparr>
     = recipe_from_dict \<lparr>name_key = Some [], servings_key = Some 1,
      ingredients_key = Some [[''name'' \<mapsto> ''Gin'', ''quantity'' \<mapsto> ''50'', ''price_per_unit'' \<mapsto> ''0.02'',
         ''unit'' \<mapsto> []]]\<rparr>"
    by (rule trans [OF load_malformed_fails [of "\<lparr>name_key = None, servings_key = None,
      ingredients_key = Some [[''name'' \<mapsto> ''Gin'', ''quantity'' \<mapsto> ''50'', ''price_per_unit'' \<mapsto> ''0.02'']]\<rparr>",
      THEN conjunct2]]) simp
  have full: "ingredient_from_dict [''name'' \<mapsto> ''Gin'', ''quantity'' \<mapsto> ''50'',
       ''price_per_unit'' \<mapsto> ''0.02'', ''unit'' \<mapsto> []]
     = Inr \<lparr>name = ''Gin'', quantity = Dec False 50 0, unit = [], price_per_unit = Dec False 2 (- 2)\<rparr>"
    by (simp add: dict_eval text_eval Ingredient_def normalize_number_def)
  have b: "recipe_from_dict \<lparr>name_key = None, servings_key = None,
      ingredients_key = Some [[''name'' \<mapsto> ''Gin'', ''quantity'' \<mapsto> ''50'', ''price_per_unit'' \<mapsto> ''0.02'']]\<rparr>
     = Inr \<lparr>recipe_name = [], ingredients =
         [\<lparr>name = ''Gin'', quantity = Dec False 50 0, unit = [], price_per_unit = Dec False 2 (- 2)\<rparr>],
         servings = 1\<rparr>"
    unfolding b0 by (simp add: recipe_from_dict_def full)
  from a b show ?thesis by (rule conjI)
qed

text \<open>
  C10 as stated fails: a record without \<^verbatim>\<open>price_per_unit\<close> whose quantity is not a
  number raises \<^verbatim>\<open>InvalidOperation\<close>, not a key-lookup error; the quantity is
  converted before the price is looked up.
\<close>

theorem from_dict_missing_price_counterexample:
  "ingredient_from_dict [''name'' \<mapsto> ''Gin'', ''quantity'' \<mapsto> ''abc''] = Inl InvalidOperation"
  by (simp add: dict_eval text_eval lower_char_def)

text \<open>
  C10, amended. \<^verbatim>\<open>Ingredient.from_dict\<close> reads a record without the key \<^verbatim>\<open>unit\<close> as
  the same record with an empty unit. A record without \<^verbatim>\<open>name\<close> raises
  \<^verbatim>\<open>KeyError('name')\<close>; with a name and without \<^verbatim>\<open>quantity\<close> it raises
  \<^verbatim>\<open>KeyError('quantity')\<close>; with a name and a quantity that \<^verbatim>\<open>Decimal\<close> accepts and
  without \<^verbatim>\<open>price_per_unit\<close> it raises \<^verbatim>\<open>KeyError('price_per_unit')\<close>. Whenever one
  of the three keys is missing it fails.
\<close>

theorem from_dict_missing_keys:
  "(d ''unit'' = None \<longrightarrow> ingredient_from_dict d = ingredient_from_dict (d(''unit'' \<mapsto> []))) \<and>
   (d ''name'' = None \<longrightarrow> ingredient_from_dict d = Inl (KeyError ''name'')) \<and>
   (d ''name'' \<noteq> None \<longrightarrow> d ''quantity'' = None \<longrightarrow>
      ingredient_from_dict d = Inl (KeyError ''quantity'')) \<and>
   (d ''name'' \<noteq> None \<longrightarrow> (\<exists>t q. d ''quantity'' = Some t \<and> Decimal_of_str t = Inr q) \<longrightarrow>
      d ''price_per_unit'' = None \<longrightarrow>
      ingredient_from_dict d = Inl (KeyError ''price_per_unit'')) \<and>
   (d ''name'' = None \<or> d ''quantity'' = None \<or> d ''price_per_unit'' = None \<longrightarrow>
      isl (ingredient_from_dict d))"
  by (auto simp: dict_eval split: option.splits sum.splits)

theorem from_dict_missing_keys_witness:
  "ingredient_from_dict [''name'' \<mapsto> ''Gin'', ''quantity'' \<mapsto> ''50'', ''price_per_unit'' \<mapsto> ''0.02'']
     = Inr \<lparr>name = ''Gin'', quantity = Dec False 50 0, unit = [], price_per_unit = Dec False 2 (- 2)\<rparr> \<and>
   ingredient_from_dict [''quantity'' \<mapsto> ''50'', ''price_per_unit'' \<mapsto> ''0.02''] = Inl (KeyError ''name'') \<and>
   ingredient_from_dict [''name'' \<mapsto> ''Gin'', ''price_per_unit'' \<mapsto> ''0.02''] = Inl (KeyError ''quantity'') \<and>
   ingredient_from_dict [''name'' \<mapsto> ''Gin'', ''quantity'' \<mapsto> ''50''] = Inl (KeyError ''price_per_unit'')"
proof -
  have q: "Decimal_of_str ''50'' = Inr (Dec False 50 0)"
    by (simp add: text_eval)
  have full: "ingredient_from_dict [''name'' \<mapsto> ''Gin'', ''quantity'' \<mapsto> ''50'',
       ''price_per_unit'' \<mapsto> ''0.02'', ''unit'' \<mapsto> []]
     = Inr \<lparr>name = ''Gin'', quantity = Dec False 50 0, unit = [], price_per_unit = Dec False 2 (- 2)\<rparr>"
    by (simp add: dict_eval text_eval Ingredient_def normalize_number_def)
  have a: "ingredient_from_dict [''name'' \<mapsto> ''Gin'', ''quantity'' \<mapsto> ''50'', ''price_per_unit'' \<mapsto> ''0.02'']
     = Inr \<lparr>name = ''Gin'', quantity = Dec False 50 0, unit = [], price_per_unit = Dec False 2 (- 2)\<rparr>"
    using from_dict_missing_keys [of "[''name'' \<mapsto> ''Gin'', ''quantity'' \<mapsto> ''50'', ''price_per_unit'' \<mapsto> ''0.02'']"]
      full by simp
  have b: "ingredient_from_dict [''quantity'' \<mapsto> ''50'', ''price_per_unit'' \<mapsto> ''0.02''] = Inl (KeyError ''name'')"
    using from_dict_missing_keys [of "[''quantity'' \<mapsto> ''50'', ''price_per_unit'' \<mapsto> ''0.02'']", THEN conjunct2, THEN conjunct1]
    by simp
  have c: "ingredient_from_dict [''name'' \<mapsto> ''Gin'', ''price_per_unit'' \<mapsto> ''0.02''] = Inl (KeyError ''quantity'')"
    using from_dict_missing_keys [of "[''name'' \<mapsto> ''Gin'', ''price_per_unit'' \<mapsto> ''0.02'']",
        THEN conjunct2, THEN conjunct2, THEN conjunct1]
    by simp
  have d: "ingredient_from_dict [''name'' \<mapsto> ''Gin'', ''quantity'' \<mapsto> ''50''] = Inl (KeyError ''price_per_unit'')"
    using from_dict_missing_keys [of "[''name'' \<mapsto> ''Gin'', ''quantity'' \<mapsto> ''50'']",
        THEN conjunct2, THEN conjunct2, THEN conjunct2, THEN conjunct1] q
    by simp
  from a b c d show ?thesis by simp
qed

subsection \<open>Existing ingredients are never written\<close>


subsection \<open>Decimals the context holds\<close>

lemma dec_fix_representable:
  "representable (Dec s c e) \<Longrightarrow> dec_fix (Dec s c e) = Inr (Dec s c e)"
  by (auto simp: Let_def Etop_def Etiny_def Emax_def Emin_def prec_def ndigits_small)

declare dec_fix.simps [simp del]


subsection \<open>Sums and products that need no rounding\<close>


lemma powi_split: "x \<le> e \<Longrightarrow> (10::rat) powi e = 10 ^ nat (e - x) * 10 powi x"
proof -
  assume "x \<le> e"
  then have "e = int (nat (e - x)) + x" by simp
  then have "(10::rat) powi e = 10 powi (int (nat (e - x)) + x)" by simp
  also have "\<dots> = 10 powi int (nat (e - x)) * 10 powi x" by (rule power_int_add) simp
  also have "(10::rat) powi int (nat (e - x)) = 10 ^ nat (e - x)" by (rule power_int_of_nat)
  finally show ?thesis .
qed




lemma signed_zero [simp]: "signed s 0 = 0"
  by (simp add: signed_def)



subsection \<open>Rounding half-up\<close>

lemma round_coef_half_up:
  "int (round_coef ROUND_HALF_UP c k) = \<lfloor>(of_nat c :: rat) / 10 ^ k + 1 / 2\<rfloor>"
proof -
  define q where "q = c div 10 ^ k"
  define r where "r = c mod 10 ^ k"
  have c: "c = q * 10 ^ k + r" unfolding q_def r_def by (rule div_mult_mod_eq [symmetric])
  have r: "r < 10 ^ k" by (simp add: r_def)
  define y :: rat where "y = of_nat r / 10 ^ k"
  have x: "(of_nat c :: rat) / 10 ^ k = of_nat q + y"
    by (simp add: c add_divide_distrib y_def)
  have r1: "y < 1" using r by (simp add: y_def divide_less_eq)
  have r0: "0 \<le> y" by (simp add: y_def)
  show ?thesis
  proof (cases "10 ^ k \<le> 2 * r")
    case True
    then have "(of_nat (10 ^ k) :: rat) \<le> of_nat (2 * r)" by (simp only: of_nat_le_iff)
    then have h: "1 / 2 \<le> y" by (simp add: y_def le_divide_eq)
    have "\<lfloor>of_nat q + y + 1 / 2\<rfloor> = int q + 1"
    proof (rule floor_unique)
      show "of_int (int q + 1) \<le> of_nat q + y + 1 / 2" using h by simp
      show "of_nat q + y + 1 / 2 < of_int (int q + 1) + 1" using r1 by simp
    qed
    with True show ?thesis
      by (simp add: round_coef_def Let_def q_def [symmetric] r_def [symmetric] x)
  next
    case False
    then have "(of_nat (2 * r) :: rat) < of_nat (10 ^ k)" by (simp only: of_nat_less_iff)
    then have h: "y < 1 / 2" by (simp add: y_def divide_less_eq)
    have "\<lfloor>of_nat q + y + 1 / 2\<rfloor> = int q"
    proof (rule floor_unique)
      show "of_int (int q) \<le> of_nat q + y + 1 / 2" using r0 by simp
      show "of_nat q + y + 1 / 2 < of_int (int q) + 1" using h by simp
    qed
    with False show ?thesis
      by (simp add: round_coef_def Let_def q_def [symmetric] r_def [symmetric] x)
  qed
qed

lemma round_coef_le: "round_coef m c k \<le> c div 10 ^ k + 1"
  by (simp add: round_coef_def Let_def)

lemma powi_neg: "e \<le> 0 \<Longrightarrow> (10::rat) powi e = 1 / 10 ^ nat (- e)"
  by (simp add: power_int_def field_simps)

lemma adjusted_bound:
  assumes "c \<noteq> 0" "of_nat c * (10::rat) powi e < 10 powi b"
  shows "int (ndigits c) + e - 1 < b"
proof (rule ccontr)
  assume "\<not> int (ndigits c) + e - 1 < b"
  then have "b \<le> int (ndigits c - 1) + e" using ndigits_pos [of c] by simp
  then have "(10::rat) powi b \<le> 10 powi (int (ndigits c - 1) + e)"
    by (intro power_int_increasing) simp_all
  also have "\<dots> = 10 ^ (ndigits c - 1) * 10 powi e"
    by (subst power_int_add) simp_all
  also have "\<dots> \<le> of_nat c * 10 powi e"
  proof (rule mult_right_mono)
    have "(of_nat (10 ^ (ndigits c - 1)) :: rat) \<le> of_nat c"
      using ndigits_lower [OF assms(1)] by (simp only: of_nat_le_iff)
    then show "(10::rat) ^ (ndigits c - 1) \<le> of_nat c" by simp
  qed simp
  finally show False using assms(2) by simp
qed

lemma round_half_up_zero [simp]: "round_half_up k 0 = 0"
  by (simp add: round_half_up_def)

lemma abs_dec_val: "\<bar>dec_val (Dec s c e)\<bar> = of_nat c * 10 powi e"
  by (simp add: abs_mult power_int_abs)

lemma sgn_dec_val: "c \<noteq> 0 \<Longrightarrow> sgn (dec_val (Dec s c e)) = (if s then - 1 else 1)"
  by (simp add: sgn_mult)

lemma floor_nat_half: "\<lfloor>of_nat n + (1::rat) / 2\<rfloor> = int n"
  by (rule floor_unique) simp_all

lemma quantize_half_up_value:
  assumes nd: "ndigits c \<le> 28"
    and bound: "\<bar>dec_val (Dec s c e)\<bar> < 10 powi (28 + x)"
    and x: "Etiny \<le> x" "x \<le> 0"
  shows "\<exists>c'. quantize (Dec s c e) (Dec t d x) ROUND_HALF_UP = Inr (Dec s c' x) \<and>
     dec_val (Dec s c' x) = round_half_up (nat (- x)) (dec_val (Dec s c e))"
proof -
  have q: "quantize (Dec s c e) (Dec t d x) ROUND_HALF_UP
      = quantize_finite ROUND_HALF_UP (Dec s c e) (Dec t d x)"
    by (simp add: quantize_def check_nans_def is_nan_def)
  have xr: "Etiny \<le> x \<and> x \<le> Emax" using x by (simp add: Emax_def)
  define v where "v = dec_val (Dec s c e)"
  have av: "\<bar>v\<bar> = of_nat c * 10 powi e" unfolding v_def by (rule abs_dec_val)
  show ?thesis
  proof (cases "c = 0")
    case True
    have "dec_fix (Dec s 0 x) = Inr (Dec s 0 x)"
      using xr by (intro dec_fix_representable) (simp add: ndigits_small prec_def)
    with True xr show ?thesis unfolding q by simp
  next
    case False
    define k where "k = nat (- x)"
    have kx: "(10::rat) powi x = 1 / 10 ^ k" using x by (simp add: k_def powi_neg)
    define adj where "adj = int (ndigits c) + e - 1"
    have "of_nat c * (10::rat) powi e < 10 powi (28 + x)"
      using bound by (simp only: abs_dec_val)
    with False have adj: "adj < 28 + x" unfolding adj_def by (rule adjusted_bound)
    then have chk: "\<not> Emax < adj" "\<not> int prec < adj - x + 1"
      using x by (simp_all add: Emax_def prec_def)
    have sg: "sgn v = (if s then - 1 else 1)"
      unfolding v_def using False by (rule sgn_dec_val)
    have val: "\<And>c'. dec_val (Dec s c' x) = (if s then - 1 else 1) * of_nat c' / 10 ^ k"
      by (simp add: kx)
    show ?thesis
    proof (cases "x \<le> e")
      case True
      define c' where "c' = c * 10 ^ nat (e - x)"
      have nd': "int (ndigits c') = adj - x + 1"
        using False True by (simp add: c'_def ndigits_mult_pow adj_def)
      then have rep: "representable (Dec s c' x)"
        using adj xr x by (simp add: prec_def Emax_def)
      have fx: "dec_fix (Dec s c' x) = Inr (Dec s c' x)" using rep by (rule dec_fix_representable)
      have res: "quantize (Dec s c e) (Dec t d x) ROUND_HALF_UP = Inr (Dec s c' x)"
        unfolding q using False True xr chk nd' adj x fx
        by (simp add: Let_def adj_def [symmetric] c'_def [symmetric] prec_def Emax_def)
      have "of_nat c' * (10::rat) powi x = of_nat c * 10 powi e"
        using powi_split [OF True] by (simp add: c'_def)
      then have "of_nat c * (10::rat) powi e = of_nat c' / 10 ^ k" by (simp add: kx)
      then have "\<bar>v\<bar> * 10 ^ k = of_nat c'" by (simp add: av)
      then have "\<lfloor>\<bar>v\<bar> * 10 ^ k + 1 / 2\<rfloor> = int c'" by (simp only: floor_nat_half)
      then have "round_half_up k v = (if s then - 1 else 1) * of_nat c' / 10 ^ k"
        by (simp only: round_half_up_def sg of_int_of_nat_eq)
      then have "dec_val (Dec s c' x) = round_half_up (nat (- x)) (dec_val (Dec s c e))"
        by (simp only: val v_def k_def)
      with res show ?thesis by blast
    next
      case False
      define j where "j = nat (x - e)"
      define c' where "c' = round_coef ROUND_HALF_UP c j"
      have j: "0 < j" using False by (simp add: j_def)
      have "c < 10 ^ 28" using nd by (simp add: ndigits_le_iff)
      moreover have "(10::nat) ^ 1 \<le> 10 ^ j"
        using j by (intro power_increasing) simp_all
      then have "c div 10 ^ j \<le> c div 10 ^ 1"
        by (intro div_le_mono2) simp_all
      ultimately have "c div 10 ^ j < 10 ^ 27" by simp
      with round_coef_le [of ROUND_HALF_UP c j] have "c' < 10 ^ 28" by (simp add: c'_def)
      then have nd': "ndigits c' \<le> 28" by (simp add: ndigits_le_iff)
      then have rep: "representable (Dec s c' x)"
        using xr x by (simp add: prec_def Emax_def)
      have fx: "dec_fix (Dec s c' x) = Inr (Dec s c' x)" using rep by (rule dec_fix_representable)
      have res: "quantize (Dec s c e) (Dec t d x) ROUND_HALF_UP = Inr (Dec s c' x)"
        unfolding q using \<open>c \<noteq> 0\<close> False xr chk nd' x fx
        by (simp add: Let_def adj_def [symmetric] c'_def [symmetric] j_def [symmetric] prec_def Emax_def)
      have "e = - int j + x" using False by (simp add: j_def)
      moreover have "(10::rat) powi (- int j + x) = 10 powi (- int j) * 10 powi x"
        by (rule power_int_add) simp
      ultimately have "(10::rat) powi e = 10 powi (- int j) * 10 powi x" by simp
      then have "\<bar>v\<bar> * 10 ^ k = of_nat c / 10 ^ j"
        by (simp add: av kx power_int_minus field_simps)
      then have "\<lfloor>\<bar>v\<bar> * 10 ^ k + 1 / 2\<rfloor> = int c'"
        by (simp only: c'_def round_coef_half_up)
      then have "round_half_up k v = (if s then - 1 else 1) * of_nat c' / 10 ^ k"
        by (simp only: round_half_up_def sg of_int_of_nat_eq)
      then have "dec_val (Dec s c' x) = round_half_up (nat (- x)) (dec_val (Dec s c e))"
        by (simp only: val v_def k_def)
      with res show ?thesis by blast
    qed
  qed
qed

subsection \<open>Evaluating the arithmetic on numerals\<close>

lemmas ctx_eval = prec_def Emax_def Emin_def Etiny_def Etop_def
lemmas arith_eval = dec_mul_def dec_add_def dec_div_def quantize_def check_nans_def is_nan_def is_snan_def
  dec_fix.simps round_coef_def Let_def signed_def ndigits_rec ctx_eval

subsection \<open>The total cost\<close>








subsection \<open>Constructing an ingredient\<close>

lemma powi_pos [simp]: "0 < (10::rat) powi e"
  by (simp add: power_int_def)

lemma powi_not_neg [simp]: "\<not> (10::rat) powi e \<le> 0" "\<not> (10::rat) powi e < 0"
  using powi_pos [of e] by (simp_all only: not_le not_less less_imp_le)







lemma strip_Nil [simp]: "strip [] = []"
  by (simp add: strip_def)




subsection \<open>Costs are never negative\<close>

lemma dec_fix_sign:
  "dec_fix (Dec s c e) = Inr d \<Longrightarrow> \<exists>c' e'. d = Dec s c' e' \<and> (c = 0 \<longrightarrow> c' = 0)"
  by (auto simp: dec_fix.simps Let_def split: if_splits prod.splits)

lemma nonneg_fix: "nonneg (Dec s c e) \<Longrightarrow> dec_fix (Dec s c e) = Inr d \<Longrightarrow> nonneg d"
  using dec_fix_sign [of s c e d] by (auto simp: nonneg_def)

lemma nonneg_val: "nonneg d \<Longrightarrow> 0 \<le> dec_val d"
  by (cases d) (auto simp: nonneg_def)

lemma valid_quantity: "dec_le0 q = Inr False \<Longrightarrow> (\<exists>c e. q = Dec False c e \<and> c \<noteq> 0) \<or> q = DInf False"
  by (cases q) auto

lemma valid_price: "dec_lt0 p = Inr False \<Longrightarrow> nonneg p"
  by (cases p) (auto simp: nonneg_def)

lemma nonneg_mul:
  assumes "dec_le0 q = Inr False" "nonneg p" "dec_mul q p = Inr m"
  shows "nonneg m"
proof -
  from assms(2) have np: "\<not> is_nan p" by (cases p) (simp_all add: nonneg_def is_nan_def)
  from assms(1) have nq: "\<not> is_nan q" by (cases q) (simp_all add: is_nan_def)
  from np nq assms(3) have m: "mul_finite q p = Inr m"
    by (simp add: dec_mul_def check_nans_def)
  from valid_quantity [OF assms(1)] show ?thesis
  proof
    assume "\<exists>c e. q = Dec False c e \<and> c \<noteq> 0"
    then obtain c e where q: "q = Dec False c e" "c \<noteq> 0" by blast
    show ?thesis
    proof (cases p)
      case (Dec t d f)
      with assms(2) have "nonneg (Dec (False \<noteq> t) (c * d) (e + f))" by (auto simp: nonneg_def)
      with m show ?thesis unfolding q Dec by (auto intro: nonneg_fix)
    next
      case (DInf t)
      with m q assms(2) show ?thesis by (auto simp: nonneg_def)
    next
      case (DNaN t sig pl)
      with np show ?thesis by (simp add: is_nan_def)
    qed
  next
    assume q: "q = DInf False"
    with m assms(2) show ?thesis
      by (cases p) (auto simp: nonneg_def split: if_splits)
  qed
qed

lemma rescale_sign: "\<exists>c'. rescale m (Dec t d f) x = Dec t c' x \<and> (d = 0 \<longrightarrow> c' = 0)"
  by simp

lemma nonneg_add:
  assumes "nonneg a" "nonneg b" "dec_add a b = Inr d"
  shows "nonneg d"
proof -
  from assms(1,2) have "\<not> is_nan a" "\<not> is_nan b"
    by (cases a; cases b; simp add: nonneg_def is_nan_def)+
  with assms(3) have ad: "add_finite a b = Inr d" by (simp add: dec_add_def check_nans_def)
  show ?thesis
  proof (cases a)
    case A: (Dec s c e)
    show ?thesis
    proof (cases b)
      case B: (Dec t dd f)
      define x where "x = min e f"
      consider (zz) "c = 0" "dd = 0" | (zn) "c = 0" "dd \<noteq> 0" | (nz) "c \<noteq> 0" "dd = 0"
        | (nn) "c \<noteq> 0" "dd \<noteq> 0" by blast
      then show ?thesis
      proof cases
        case zz
        with ad have "dec_fix (Dec (s \<and> t) 0 x) = Inr d" unfolding A B by (simp add: x_def)
        then show ?thesis by (rule nonneg_fix [rotated]) (simp add: nonneg_def)
      next
        case zn
        with assms(2) B have t: "\<not> t" by (simp add: nonneg_def)
        from zn ad obtain y where "dec_fix (rescale ROUND_HALF_EVEN (Dec t dd f) y) = Inr d"
          unfolding A B by (simp add: Let_def del: rescale.simps)
        moreover obtain c' where "rescale ROUND_HALF_EVEN (Dec t dd f) y = Dec t c' y"
          using rescale_sign by blast
        ultimately have "dec_fix (Dec t c' y) = Inr d" by simp
        then show ?thesis by (rule nonneg_fix [rotated]) (simp add: nonneg_def t)
      next
        case nz
        with assms(1) A have s: "\<not> s" by (simp add: nonneg_def)
        from nz ad obtain y where "dec_fix (rescale ROUND_HALF_EVEN (Dec s c e) y) = Inr d"
          unfolding A B by (simp add: Let_def del: rescale.simps)
        moreover obtain c' where "rescale ROUND_HALF_EVEN (Dec s c e) y = Dec s c' y"
          using rescale_sign by blast
        ultimately have "dec_fix (Dec s c' y) = Inr d" by simp
        then show ?thesis by (rule nonneg_fix [rotated]) (simp add: nonneg_def s)
      next
        case nn
        with assms(1,2) A B have st: "\<not> s" "\<not> t" by (simp_all add: nonneg_def)
        define r where "r = signed s c * 10 ^ nat (e - x) + signed t dd * 10 ^ nat (f - x)"
        have "0 < int c * 10 ^ nat (e - x)" "0 < int dd * 10 ^ nat (f - x)" using nn by simp_all
        then have "0 < r" using st by (simp add: r_def signed_def)
        with nn ad have "dec_fix (Dec False (nat \<bar>r\<bar>) x) = Inr d"
          unfolding A B by (simp add: Let_def x_def [symmetric] r_def [symmetric])
        then show ?thesis by (rule nonneg_fix [rotated]) (simp add: nonneg_def)
      qed
    next
      case (DInf t)
      with ad A assms(2) show ?thesis by (auto simp: nonneg_def)
    next
      case (DNaN t sig pl)
      with assms(2) show ?thesis by (simp add: nonneg_def)
    qed
  next
    case A: (DInf s)
    with ad assms(1,2) show ?thesis by (cases b) (auto simp: nonneg_def split: if_splits)
  next
    case (DNaN s sig pl)
    with assms(1) show ?thesis by (simp add: nonneg_def)
  qed
qed

lemma nonneg_total_loop:
  "nonneg acc \<Longrightarrow> \<forall>i \<in> set is. valid_ingredient i \<Longrightarrow> total_loop acc is = Inr t \<Longrightarrow> nonneg t"
proof (induction "is" arbitrary: acc)
  case Nil
  then show ?case by simp
next
  case (Cons i "is")
  from Cons.prems(2) have v: "dec_le0 (quantity i) = Inr False" "nonneg (price_per_unit i)"
    by (simp_all add: valid_ingredient_def valid_price)
  from Cons.prems(3) obtain qp acc' where
    s: "dec_mul (quantity i) (price_per_unit i) = Inr qp" "dec_add acc qp = Inr acc'"
      "total_loop acc' is = Inr t"
    by (auto split: sum.splits)
  from v s(1) have "nonneg qp" by (rule nonneg_mul)
  with Cons.prems(1) s(2) have "nonneg acc'" by (blast intro: nonneg_add)
  with Cons.IH s(3) Cons.prems(2) show ?case by simp
qed

lemma nonneg_quantize:
  assumes "nonneg a" "quantize a (Dec t d x) m = Inr r"
  shows "nonneg r \<and> is_finite r"
proof (cases a)
  case (Dec s c e)
  from assms(2) have q: "quantize_finite m (Dec s c e) (Dec t d x) = Inr r"
    unfolding Dec by (simp add: quantize_def check_nans_def is_nan_def)
  show ?thesis
  proof (cases "c = 0")
    case True
    with q have "dec_fix (Dec s 0 x) = Inr r" by (simp split: if_splits)
    then show ?thesis using dec_fix_sign [of s 0 x r] by (auto simp: nonneg_def is_finite_def)
  next
    case False
    with assms(1) Dec have s: "\<not> s" by (simp add: nonneg_def)
    obtain c' where "rescale m (Dec s c e) x = Dec s c' x" using rescale_sign by blast
    with q False have "dec_fix (Dec s c' x) = Inr r"
      by (simp add: Let_def del: rescale.simps split: if_splits)
    then show ?thesis using dec_fix_sign [of s c' x r] s by (auto simp: nonneg_def is_finite_def)
  qed
next
  case (DInf s)
  with assms(2) show ?thesis by (simp add: quantize_def check_nans_def is_nan_def)
next
  case (DNaN s sig pl)
  with assms(1) show ?thesis by (simp add: nonneg_def)
qed

lemma nonneg_div_servings:
  assumes "nonneg a" "is_finite a" "1 \<le> n" "dec_div a (Decimal_of_int n) = Inr d"
  shows "nonneg d"
proof -
  from assms(2) obtain s c e where a: "a = Dec s c e" by (cases a) (simp_all add: is_finite_def)
  define k where "k = nat \<bar>n\<bar>"
  have k: "k \<noteq> 0" and n: "Decimal_of_int n = Dec False k 0"
    using assms(3) by (simp_all add: k_def Decimal_of_int_def)
  from assms(4) have dv: "div_finite (Dec s c e) (Dec False k 0) = Inr d"
    unfolding a n by (simp add: dec_div_def check_nans_def is_nan_def)
  show ?thesis
  proof (cases "c = 0")
    case True
    with dv k have "dec_fix (Dec s 0 e) = Inr d" by simp
    then show ?thesis by (rule nonneg_fix [rotated]) (simp add: nonneg_def)
  next
    case False
    with assms(1) a have s: "\<not> s" by (simp add: nonneg_def)
    from dv k False s obtain c' x' where "dec_fix (Dec False c' x') = Inr d"
      by (auto simp: Let_def split: if_splits prod.splits)
    then show ?thesis by (rule nonneg_fix [rotated]) (simp add: nonneg_def)
  qed
qed

text \<open>
  C9. For every recipe whose ingredients satisfy the construction invariant, a total
  cost that \<^verbatim>\<open>calculate_total_cost\<close> returns is a finite decimal \<open>\<ge> 0\<close>, and for
  servings \<open>\<ge> 1\<close> a cost per serving that \<^verbatim>\<open>calculate_cost_per_serving\<close> returns is a
  finite decimal \<open>\<ge> 0\<close>.
\<close>

theorem costs_nonnegative:
  assumes "\<forall>i \<in> set (ingredients r). valid_ingredient i"
  shows "(\<forall>d. calculate_total_cost r = Inr d \<longrightarrow> is_finite d \<and> 0 \<le> dec_val d) \<and>
    (1 \<le> servings r \<longrightarrow>
       (\<forall>d. calculate_cost_per_serving r = Inr d \<longrightarrow> is_finite d \<and> 0 \<le> dec_val d))"
proof -
  have tot: "nonneg d \<and> is_finite d" if "calculate_total_cost r = Inr d" for d
  proof -
    from that obtain t where t: "total_loop (Dec False 0 0) (ingredients r) = Inr t"
      "quantize t (Dec False 1 (- 2)) ROUND_HALF_UP = Inr d"
      by (auto simp: calculate_total_cost_def quantize_money_def MONEY_QUANT_def split: sum.splits)
    have "nonneg (Dec False 0 0)" by (simp add: nonneg_def)
    from nonneg_total_loop [OF this assms t(1)] have "nonneg t" .
    from this t(2) show ?thesis by (rule nonneg_quantize)
  qed
  have per: "nonneg d \<and> is_finite d" if "1 \<le> servings r" "calculate_cost_per_serving r = Inr d" for d
  proof -
    from that obtain t p where t: "calculate_total_cost r = Inr t"
      "dec_div t (Decimal_of_int (servings r)) = Inr p"
      "quantize p (Dec False 1 (- 2)) ROUND_HALF_UP = Inr d"
      by (auto simp: calculate_cost_per_serving_def quantize_money_def MONEY_QUANT_def
          split: sum.splits if_splits)
    from tot [OF t(1)] have "nonneg t" "is_finite t" by simp_all
    from this that(1) t(2) have "nonneg p" by (rule nonneg_div_servings)
    from this t(3) show ?thesis by (rule nonneg_quantize)
  qed
  from tot per show ?thesis by (blast intro: nonneg_val)
qed

theorem costs_nonnegative_witness:
  "valid_ingredient gin \<and> valid_ingredient tonic \<and> 1 \<le> servings gin_and_tonic \<and>
   calculate_total_cost gin_and_tonic = Inr (Dec False 115 (- 2)) \<and>
   calculate_cost_per_serving gin_and_tonic = Inr (Dec False 58 (- 2)) \<and>
   0 \<le> dec_val (Dec False 115 (- 2)) \<and> 0 \<le> dec_val (Dec False 58 (- 2))"
proof -
  have g: "valid_ingredient gin" and t: "valid_ingredient tonic"
    by (simp_all add: gin_def tonic_def valid_ingredient_def strip_def is_space_def)
  then have v: "\<forall>i \<in> set (ingredients gin_and_tonic). valid_ingredient i"
    by (simp add: gin_and_tonic_def)
  have s: "1 \<le> servings gin_and_tonic" by (simp add: gin_and_tonic_def)
  have tot: "calculate_total_cost gin_and_tonic = Inr (Dec False 115 (- 2))"
    by (simp add: calculate_total_cost_def gin_and_tonic_def gin_def tonic_def quantize_money_def
        MONEY_QUANT_def arith_eval)
  have dv: "dec_div (Dec False 115 (- 2)) (Dec False 2 0) = Inr (Dec False 575 (- 3))"
    by (simp add: arith_eval strip_zeros.simps)
  have qm: "quantize_money (Dec False 575 (- 3)) = Inr (Dec False 58 (- 2))"
    by (simp add: quantize_money_def MONEY_QUANT_def arith_eval)
  have per: "calculate_cost_per_serving gin_and_tonic = Inr (Dec False 58 (- 2))"
    using tot dv qm by (simp add: calculate_cost_per_serving_def Decimal_of_int_def gin_and_tonic_def)
  from costs_nonnegative [OF v] tot per s
  have "0 \<le> dec_val (Dec False 115 (- 2))" "0 \<le> dec_val (Dec False 58 (- 2))" by blast+
  with g t s tot per show ?thesis by simp
qed

subsection \<open>The price per unit of a row\<close>

lemma str_nat_rec: "str_nat n = (if n < 10 then [digit_chr n] else str_nat (n div 10) @ [digit_chr (n mod 10)])"
  by (rule str_nat.simps)

lemma digit_chr_eval:
  "digit_chr 0 = CHR ''0''" "digit_chr 1 = CHR ''1''" "digit_chr 2 = CHR ''2''"
  "digit_chr 3 = CHR ''3''" "digit_chr 4 = CHR ''4''" "digit_chr 5 = CHR ''5''"
  "digit_chr 6 = CHR ''6''" "digit_chr 7 = CHR ''7''" "digit_chr 8 = CHR ''8''"
  "digit_chr 9 = CHR ''9''" "digit_chr (Suc 0) = CHR ''1''"
  by code_simp+

lemma saffron_parse:
  "row_price saffron_row = Some (Dec False 1000000000 0)"
  "row_qty saffron_row = Dec False 1 (- 5)"
  "row_unit_spec saffron_row = Dec False 1000000000 0"
  by (simp_all add: saffron_row_def row_price_def row_price_txt_def row_qty_def row_unit_spec_def Decimal_or_def text_eval)

lemma saffron_div: "dec_div (Dec False 1000000000 0) (Dec False 1 (- 5)) = Inr (Dec False 1000000000 5)"
  by (simp add: arith_eval strip_zeros.simps)

lemma saffron_mul: "dec_mul (Dec False 1000000000 0) (Dec False 1000000000 5) = Inr (Dec False 1000000000000000000 5)"
  by (simp add: arith_eval)

lemma saffron_q: "quantize (Dec False 1000000000000000000 5) (Dec False 1 (- 6)) ROUND_HALF_EVEN = Inl InvalidOperation"
  by (simp add: arith_eval)

lemma dec_fix_finite: "dec_fix (Dec s c e) = Inr d \<Longrightarrow> \<not> is_nan d"
  using dec_fix_sign [of s c e d] by (auto simp: is_nan_def)

lemma dec_div_not_nan:
  assumes "dec_div a b = Inr x" "\<not> is_nan a" "\<not> is_nan b"
  shows "\<not> is_nan x"
proof -
  from assms have d: "div_finite a b = Inr x" by (simp add: dec_div_def check_nans_def)
  show ?thesis
  proof (cases a)
    case A: (Dec s c e)
    show ?thesis
    proof (cases b)
      case B: (Dec t dd f)
      from d obtain s' c' e' where "dec_fix (Dec s' c' e') = Inr x"
        unfolding A B by (auto simp: Let_def split: if_splits prod.splits)
      then show ?thesis by (rule dec_fix_finite)
    next
      case (DInf t)
      with d A show ?thesis by (auto simp: is_nan_def)
    next
      case (DNaN t sig pl)
      with assms(3) show ?thesis by (simp add: is_nan_def)
    qed
  next
    case (DInf s)
    with d show ?thesis by (cases b) (auto simp: is_nan_def)
  next
    case (DNaN s sig pl)
    with assms(2) show ?thesis by (simp add: is_nan_def)
  qed
qed

lemma dec_mul_not_nan:
  assumes "dec_mul a b = Inr x" "\<not> is_nan a" "\<not> is_nan b"
  shows "\<not> is_nan x"
proof -
  from assms have d: "mul_finite a b = Inr x" by (simp add: dec_mul_def check_nans_def)
  show ?thesis
  proof (cases a)
    case A: (Dec s c e)
    show ?thesis
    proof (cases b)
      case B: (Dec t dd f)
      from d have "dec_fix (Dec (s \<noteq> t) (c * dd) (e + f)) = Inr x" unfolding A B by simp
      then show ?thesis by (rule dec_fix_finite)
    next
      case (DInf t)
      with d A show ?thesis by (auto simp: is_nan_def split: if_splits)
    next
      case (DNaN t sig pl)
      with assms(3) show ?thesis by (simp add: is_nan_def)
    qed
  next
    case (DInf s)
    with d show ?thesis by (cases b) (auto simp: is_nan_def split: if_splits)
  next
    case (DNaN s sig pl)
    with assms(2) show ?thesis by (simp add: is_nan_def)
  qed
qed

lemma quantize_result:
  assumes "quantize y (Dec t d x) m = Inr z" "\<not> is_nan y"
  shows "\<exists>s c. z = Dec s c x \<and> ndigits c \<le> prec"
proof (cases y)
  case (Dec s c e)
  from assms(1) have q: "quantize_finite m (Dec s c e) (Dec t d x) = Inr z"
    unfolding Dec by (simp add: quantize_def check_nans_def is_nan_def)
  then have xr: "Etiny \<le> x" "x \<le> Emax" by (auto split: if_splits)
  show ?thesis
  proof (cases "c = 0")
    case True
    with q xr have "dec_fix (Dec s 0 x) = Inr z" by simp
    with xr have "z = Dec s 0 x" by (simp add: dec_fix.simps)
    then show ?thesis by (simp add: ndigits_small prec_def)
  next
    case False
    obtain c' where r: "rescale m (Dec s c e) x = Dec s c' x" using rescale_sign by blast
    with q False xr have c': "ndigits c' \<le> prec" "int (ndigits c') + x - 1 \<le> Emax"
      and f: "dec_fix (Dec s c' x) = Inr z"
      by (auto simp add: Let_def simp del: rescale.simps split: if_splits)
    from c' xr have "representable (Dec s c' x)" by simp
    then have "dec_fix (Dec s c' x) = Inr (Dec s c' x)" by (rule dec_fix_representable)
    with f c' show ?thesis by auto
  qed
next
  case (DInf s)
  with assms(1) show ?thesis by (simp add: quantize_def check_nans_def is_nan_def)
next
  case (DNaN s sig pl)
  with assms(2) show ?thesis by (simp add: is_nan_def)
qed

lemma dec_gt0_not_nan: "dec_gt0 d = Inr b \<Longrightarrow> \<not> is_nan d"
  by (cases d) (simp_all add: is_nan_def)

lemma dec_gt0_le_zero: "\<not> is_nan d \<Longrightarrow> dec_gt0 d = Inr (\<not> le_zero d)"
  by (cases d) (auto simp: le_zero_def is_nan_def mult_le_0_iff zero_le_mult_iff)

lemma format_ppu_six:
  assumes "ndigits c \<le> prec"
  shows "\<exists>c2. format_ppu (Dec s c (- 6)) = format_f (Dec s c2 (- 2)) \<and>
    dec_val (Dec s c2 (- 2)) = round_half_up 2 (dec_val (Dec s c (- 6)))"
proof -
  have nd: "ndigits c \<le> 28" using assms by (simp add: prec_def)
  then have "c < 10 ^ 28" by (simp add: ndigits_le_iff)
  then have "(of_nat c :: rat) < of_nat (10 ^ 28)" by (simp only: of_nat_less_iff)
  then have "\<bar>dec_val (Dec s c (- 6))\<bar> < 10 powi (28 + (- 2))"
    by (simp add: abs_mult)
  moreover have "Etiny \<le> - 2" by (simp add: ctx_eval)
  ultimately obtain c2 where
    "quantize (Dec s c (- 6)) (Dec False 1 (- 2)) ROUND_HALF_UP = Inr (Dec s c2 (- 2))"
    "dec_val (Dec s c2 (- 2)) = round_half_up 2 (dec_val (Dec s c (- 6)))"
    using quantize_half_up_value [OF nd, of s "- 6" "- 2" False 1] by auto
  then show ?thesis by (auto simp: format_ppu_def)
qed

text \<open>
  C3 as stated fails. With the price 1000000000, the quantity 0.00001 and the unit spec
  1000000000 (all within what the line edits accept, both positive) the price per unit
  \<open>10\<^sup>2\<^sup>3\<close> has no six-decimal form of 28 digits: \<^verbatim>\<open>quantize\<close> raises, the exception is
  swallowed, and the field keeps the stale text it had.
\<close>

theorem price_per_unit_stale_counterexample:
  "row_price saffron_row = Some (Dec False 1000000000 0) \<and>
   row_qty saffron_row = Dec False 1 (- 5) \<and>
   row_unit_spec saffron_row = Dec False 1000000000 0 \<and>
   dec_gt0 (row_qty saffron_row) = Inr True \<and>
   dec_gt0 (row_unit_spec saffron_row) = Inr True \<and>
   update_price_per_unit_for_row saffron_row = saffron_row \<and>
   ppu_text saffron_row = ''7.00''"
proof -
  have "update_price_per_unit_for_row saffron_row = saffron_row"
    by (simp add: update_price_per_unit_for_row_def saffron_parse saffron_div saffron_mul saffron_q
        del: One_nat_def)
  moreover have "ppu_text saffron_row = ''7.00''" by (simp add: saffron_row_def)
  ultimately show ?thesis by (simp add: saffron_parse)
qed

text \<open>
  C3, amended. Let \<open>P\<close> be the entered row price, \<open>Q\<close> the quantity and \<open>U\<close> the unit
  spec of a row. When \<open>P\<close> is not a NaN, \<open>Q > 0\<close> and \<open>U > 0\<close>, and the context computes
  \<open>P * (U / Q)\<close> and its six-decimal form \<open>z\<close> (half-even) without an exception, the
  price-per-unit field is set to \<open>z\<close> rounded half-up to two decimals, written with
  two decimals; when one of these three operations raises, the field is left as it
  was. When a row price has been entered (its text is not blank) and \<open>Q \<le> 0\<close> or
  \<open>U \<le> 0\<close>, the field is cleared, whatever \<open>P\<close> is.
\<close>

theorem price_per_unit_for_row:
  "(row_price r = Some P \<longrightarrow> \<not> is_nan P \<longrightarrow>
      dec_gt0 (row_qty r) = Inr True \<longrightarrow> dec_gt0 (row_unit_spec r) = Inr True \<longrightarrow>
      dec_div (row_unit_spec r) (row_qty r) = Inr x \<longrightarrow> dec_mul P x = Inr y \<longrightarrow>
      quantize y (Dec False 1 (- 6)) ROUND_HALF_EVEN = Inr z \<longrightarrow>
      (\<exists>s c c2. z = Dec s c (- 6) \<and>
         dec_val (Dec s c2 (- 2)) = round_half_up 2 (dec_val z) \<and>
         update_price_per_unit_for_row r = r\<lparr>ppu_text := format_f (Dec s c2 (- 2))\<rparr>)) \<and>
   (row_price r = Some P \<longrightarrow>
      dec_gt0 (row_qty r) = Inr True \<longrightarrow> dec_gt0 (row_unit_spec r) = Inr True \<longrightarrow>
      (case dec_div (row_unit_spec r) (row_qty r) of
         Inl e \<Rightarrow> True
       | Inr x \<Rightarrow> (case dec_mul P x of
           Inl e \<Rightarrow> True
         | Inr y \<Rightarrow> isl (quantize y (Dec False 1 (- 6)) ROUND_HALF_EVEN))) \<longrightarrow>
      update_price_per_unit_for_row r = r) \<and>
   (row_price_txt r \<noteq> [] \<longrightarrow> \<not> is_nan (row_qty r) \<longrightarrow> \<not> is_nan (row_unit_spec r) \<longrightarrow>
      le_zero (row_qty r) \<or> le_zero (row_unit_spec r) \<longrightarrow>
      update_price_per_unit_for_row r = r\<lparr>ppu_text := []\<rparr>)"
proof (intro conjI impI)
  assume P: "row_price r = Some P" "\<not> is_nan P"
    and Q: "dec_gt0 (row_qty r) = Inr True" and U: "dec_gt0 (row_unit_spec r) = Inr True"
    and x: "dec_div (row_unit_spec r) (row_qty r) = Inr x" and y: "dec_mul P x = Inr y"
    and z: "quantize y (Dec False 1 (- 6)) ROUND_HALF_EVEN = Inr z"
  have "\<not> is_nan x"
    using x dec_gt0_not_nan [OF U] dec_gt0_not_nan [OF Q] by (rule dec_div_not_nan)
  with y P(2) have "\<not> is_nan y" by (rule dec_mul_not_nan)
  with z obtain s c where zz: "z = Dec s c (- 6)" "ndigits c \<le> prec"
    using quantize_result by blast
  from format_ppu_six [OF zz(2), of s] obtain c2 where
    c2: "format_ppu z = format_f (Dec s c2 (- 2))"
      "dec_val (Dec s c2 (- 2)) = round_half_up 2 (dec_val z)"
    unfolding zz(1) by blast
  have "update_price_per_unit_for_row r = r\<lparr>ppu_text := format_f (Dec s c2 (- 2))\<rparr>"
    using P(1) Q U x y z c2(1) by (simp add: update_price_per_unit_for_row_def Let_def del: One_nat_def)
  with zz(1) c2(2) show "\<exists>s c c2. z = Dec s c (- 6) \<and>
         dec_val (Dec s c2 (- 2)) = round_half_up 2 (dec_val z) \<and>
         update_price_per_unit_for_row r = r\<lparr>ppu_text := format_f (Dec s c2 (- 2))\<rparr>"
    by blast
next
  assume "row_price r = Some P" "dec_gt0 (row_qty r) = Inr True"
    "dec_gt0 (row_unit_spec r) = Inr True"
    "case dec_div (row_unit_spec r) (row_qty r) of
         Inl e \<Rightarrow> True
       | Inr x \<Rightarrow> (case dec_mul P x of
           Inl e \<Rightarrow> True
         | Inr y \<Rightarrow> isl (quantize y (Dec False 1 (- 6)) ROUND_HALF_EVEN))"
  then show "update_price_per_unit_for_row r = r"
    by (auto simp add: update_price_per_unit_for_row_def Let_def simp del: One_nat_def split: sum.splits)
next
  assume t: "row_price_txt r \<noteq> []" and nq: "\<not> is_nan (row_qty r)"
    and nu: "\<not> is_nan (row_unit_spec r)"
    and le: "le_zero (row_qty r) \<or> le_zero (row_unit_spec r)"
  have q: "dec_gt0 (row_qty r) = Inr (\<not> le_zero (row_qty r))" using nq by (rule dec_gt0_le_zero)
  have u: "dec_gt0 (row_unit_spec r) = Inr (\<not> le_zero (row_unit_spec r))"
    using nu by (rule dec_gt0_le_zero)
  show "update_price_per_unit_for_row r = r\<lparr>ppu_text := []\<rparr>"
    using t le
    by (cases "le_zero (row_qty r)"; cases "le_zero (row_unit_spec r)")
      (auto simp add: update_price_per_unit_for_row_def Let_def q u split: option.splits)
qed

lemma rum_row_parse:
  "row_price rum_row = Some (Dec False 18 0)" "row_qty rum_row = Dec False 700 0"
  "row_unit_spec rum_row = Dec False 25 0"
  by (simp_all add: rum_row_def row_price_def row_price_txt_def row_qty_def row_unit_spec_def
      Decimal_or_def text_eval)

lemma gin_row_parse:
  "row_price gin_row = Some (Dec False 21 0)" "row_qty gin_row = Dec False 700 0"
  "row_unit_spec gin_row = Dec False 60 0" "row_price_txt gin_row = ''21''"
  by (simp_all add: gin_row_def row_price_def row_price_txt_def row_qty_def row_unit_spec_def
      Decimal_or_def text_eval)

theorem price_per_unit_for_row_witness:
  "update_price_per_unit_for_row rum_row = rum_row\<lparr>ppu_text := ''0.64''\<rparr> \<and>
   update_price_per_unit_for_row saffron_row = saffron_row \<and>
   update_price_per_unit_for_row (gin_row\<lparr>qty_text := ''0'', ppu_text := ''1.80''\<rparr>)
     = gin_row\<lparr>qty_text := ''0'', ppu_text := []\<rparr>"
proof -
  have d: "dec_div (Dec False 25 0) (Dec False 700 0) = Inr (Dec False 3571428571428571428571428571 (- 29))"
    by (simp add: arith_eval)
  have m: "dec_mul (Dec False 18 0) (Dec False 3571428571428571428571428571 (- 29))
      = Inr (Dec False 6428571428571428571428571428 (- 28))"
    by (simp add: arith_eval)
  have q: "quantize (Dec False 6428571428571428571428571428 (- 28)) (Dec False 1 (- 6)) ROUND_HALF_EVEN
      = Inr (Dec False 642857 (- 6))"
    by (simp add: arith_eval)
  have g: "dec_gt0 (row_qty rum_row) = Inr True" "dec_gt0 (row_unit_spec rum_row) = Inr True"
    by (simp_all add: rum_row_parse)
  from price_per_unit_for_row [of rum_row "Dec False 18 0" "Dec False 3571428571428571428571428571 (- 29)"
      "Dec False 6428571428571428571428571428 (- 28)" "Dec False 642857 (- 6)", THEN conjunct1]
    d m q g
  obtain c2 where c2: "dec_val (Dec False c2 (- 2)) = round_half_up 2 (dec_val (Dec False 642857 (- 6)))"
    "update_price_per_unit_for_row rum_row = rum_row\<lparr>ppu_text := format_f (Dec False c2 (- 2))\<rparr>"
    by (auto simp: rum_row_parse is_nan_def)
  have "round_half_up 2 (dec_val (Dec False 642857 (- 6))) = 64 / 100"
    by (simp add: round_half_up_def floor_eq_iff)
  with c2(1) have "c2 = 64" by simp
  moreover have "format_f (Dec False 64 (- 2)) = ''0.64''"
    by (simp add: format_f_def sign_str_def str_nat_rec digit_chr_eval)
  ultimately have a: "update_price_per_unit_for_row rum_row = rum_row\<lparr>ppu_text := ''0.64''\<rparr>"
    using c2(2) by simp
  have b: "update_price_per_unit_for_row saffron_row = saffron_row"
    using price_per_unit_for_row [of saffron_row "Dec False 1000000000 0", THEN conjunct2, THEN conjunct1]
    by (simp add: saffron_parse saffron_div saffron_mul saffron_q del: One_nat_def)
  let ?r = "gin_row\<lparr>qty_text := ''0'', ppu_text := ''1.80''\<rparr>"
  have p: "row_price_txt ?r = ''21''" "row_qty ?r = Dec False 0 0" "row_unit_spec ?r = Dec False 60 0"
    by (simp_all add: gin_row_def row_price_txt_def row_qty_def row_unit_spec_def Decimal_or_def text_eval)
  have c: "update_price_per_unit_for_row ?r = gin_row\<lparr>qty_text := ''0'', ppu_text := []\<rparr>"
    using price_per_unit_for_row [of ?r, THEN conjunct2, THEN conjunct2]
    by (simp add: p is_nan_def le_zero_def)
  from a b c show ?thesis by simp
qed

end
